theory Spec2Isabelle
  imports Main "HOL-Library.Product_Lexorder"
begin

section \<open>Data model\<close>

text \<open>
  The enumerations of the Prisma client as the two operations use them.  \<open>DocumentStatus\<close>
  has the three states the specification names.
\<close>

datatype SigningStatus = NOT_SIGNED | SIGNED | REJECTED

datatype SendStatus = NOT_SENT | SENT

datatype RecipientRole = CC | SIGNER | VIEWER | APPROVER | ASSISTANT

datatype DocumentStatus = DRAFT | PENDING | COMPLETED

datatype DocumentSigningOrder = PARALLEL | SEQUENTIAL

datatype EnvelopeType = DOCUMENT | TEMPLATE

datatype FieldType =
  SIGNATURE | FREE_SIGNATURE | INITIALS | NAME | EMAIL | DATE | TEXT | NUMBER
  | RADIO | CHECKBOX | DROPDOWN

datatype DocumentAuth = ACCOUNT | PASSKEY | TWO_FACTOR_AUTH | PASSWORD | EXPLICIT_NONE

text \<open>Stored authentication options and envelope identifiers are opaque here.\<close>

type_synonym AuthOptions = string

type_synonym EnvelopeIdOptions = string

record DocumentMeta =
  dm_signingOrder :: "DocumentSigningOrder option"
  dm_allowDictateNextSigner :: bool
  dm_emailSettings :: string

record Envelope =
  e_id :: string
  e_secondaryId :: string
  e_type :: EnvelopeType
  e_status :: DocumentStatus
  e_userId :: nat
  e_teamId :: "nat option"
  e_title :: string
  e_formValues :: "(string \<times> string) list option"
  e_authOptions :: AuthOptions
  e_documentMeta :: "DocumentMeta option"

record EnvelopeItem =
  ei_id :: string
  ei_envelopeId :: string
  ei_documentDataId :: string

record Recipient =
  r_id :: nat
  r_envelopeId :: string
  r_token :: string
  r_name :: string
  r_email :: string
  r_role :: RecipientRole
  r_signingOrder :: "nat option"
  r_signingStatus :: SigningStatus
  r_sendStatus :: SendStatus
  r_signedAt :: "nat option"
  r_authOptions :: AuthOptions

text \<open>
  \<open>f_required\<close> is the required-ness of a field, which the specification derives from
  the field's type and role; it does not depend on \<open>f_inserted\<close>.
\<close>

record Field =
  f_id :: nat
  f_secondaryId :: string
  f_envelopeId :: string
  f_recipientId :: nat
  f_type :: FieldType
  f_inserted :: bool
  f_autosign :: bool
  f_required :: bool

record Signature =
  s_fieldId :: nat
  s_recipientId :: nat
  s_typedSignature :: string

subsection \<open>Request metadata and audit log entries\<close>

record RequestMetadata =
  ipAddress :: "string option"
  userAgent :: "string option"

text \<open>
  \<open>ApiRequestMetadata\<close>: the nested request metadata, and the remaining properties
  (source, auth, audit user) kept as one opaque value.
\<close>

record ApiRequestMetadata =
  requestMetadata :: RequestMetadata
  apiContext :: string

text \<open>
  The \<open>metadata\<close> object handed to \<open>createDocumentAuditLogData\<close>.  It is built by object
  spread, so it is kept property by property: \<open>am_requestMetadata\<close> is the nested
  \<open>requestMetadata\<close> property (where an \<open>ApiRequestMetadata\<close> holds the IP address),
  \<open>am_apiContext\<close> the other properties of an \<open>ApiRequestMetadata\<close> when one was spread,
  and \<open>am_spread\<close> the properties that the spread of a plain \<open>RequestMetadata\<close> leaves
  at the top level of the object.
\<close>

record AuditMetadata =
  am_requestMetadata :: RequestMetadata
  am_apiContext :: "string option"
  am_spread :: "RequestMetadata option"

record RecipientChanges =
  rc_nameFrom :: string
  rc_nameTo :: string
  rc_emailFrom :: string
  rc_emailTo :: string

text \<open>The audit log kinds of the two operations, each with its \<open>data\<close> payload.\<close>

datatype AuditData =
  DOCUMENT_SENT
  | DOCUMENT_FIELD_INSERTED string nat string RecipientRole string FieldType string
    \<comment> \<open>recipientEmail, recipientId, recipientName, recipientRole, fieldId, field.type, field.data\<close>
  | DOCUMENT_RECIPIENT_COMPLETED string string nat RecipientRole "DocumentAuth list"
    \<comment> \<open>recipientEmail, recipientName, recipientId, recipientRole, actionAuth\<close>
  | DOCUMENT_ACCESS_AUTH_2FA_FAILED nat string string
  | DOCUMENT_ACCESS_AUTH_2FA_VALIDATED nat string string
  | RECIPIENT_UPDATED string string nat RecipientRole RecipientChanges

text \<open>
  An audit log row is recorded as the options object given to
  \<open>createDocumentAuditLogData\<close>: the helper itself is not part of the sources at hand.
\<close>

record AuditLog =
  a_envelopeId :: string
  a_user :: "(string \<times> string) option"
  a_requestMetadata :: "RequestMetadata option"
  a_metadata :: "AuditMetadata option"
  a_data :: AuditData

subsection \<open>Jobs, webhooks and the world\<close>

datatype Job =
  internal_seal_document nat "RequestMetadata option"
  | send_signing_requested_email nat nat nat "RequestMetadata option"
    \<comment> \<open>userId, documentId, recipientId, requestMetadata\<close>
  | send_recipient_signed_email nat nat

datatype WebhookTriggerEvents = DOCUMENT_SENT_EVENT | DOCUMENT_SIGNED_EVENT

record Webhook =
  wh_event :: WebhookTriggerEvents
  wh_envelope :: Envelope
  wh_recipients :: "Recipient list"
  wh_userId :: nat
  wh_teamId :: "nat option"

text \<open>
  The store (five tables and the envelope items), the collaborators' logs (jobs requested,
  pending-email calls, webhooks emitted), and \<open>writesLeft\<close>: how many more store writes
  succeed before one is rejected (\<open>None\<close>: the store never rejects a write).
\<close>

record World =
  envelopes :: "Envelope list"
  envelopeItems :: "EnvelopeItem list"
  recipients :: "Recipient list"
  fieldRows :: "Field list"
  signatures :: "Signature list"
  auditLogs :: "AuditLog list"
  jobs :: "Job list"
  pendingEmails :: "(EnvelopeIdOptions \<times> nat) list"
  webhooks :: "Webhook list"
  writesLeft :: "nat option"

subsection \<open>Errors\<close>

datatype AppErrorCode = UNKNOWN_ERROR | UNAUTHORIZED | TWO_FACTOR_AUTH_FAILED

text \<open>
  What a call can throw: a plain \<open>Error\<close> with its message, an \<open>AppError\<close> with its code,
  message and status code, and the two failures of the store (no row for a
  \<open>findFirstOrThrow\<close>; a rejected write or an inconsistent relation).
\<close>

datatype Failure =
  Error string
  | AppError AppErrorCode string "nat option"
  | PrismaNotFoundError
  | PrismaStoreError

text \<open>
  The type of a thrown value, which is what a caller can test (its class and, for an
  \<open>AppError\<close>, its code); the message is not part of it.
\<close>

datatype ErrorType = PlainError | AppErrorOf AppErrorCode | NotFoundOfStore | FailureOfStore

fun errorType :: "Failure \<Rightarrow> ErrorType" where
  "errorType (Error _) = PlainError"
| "errorType (AppError code _ _) = AppErrorOf code"
| "errorType PrismaNotFoundError = NotFoundOfStore"
| "errorType PrismaStoreError = FailureOfStore"

subsection \<open>Collaborators that are not part of the sources at hand\<close>

record Externals =
  now :: nat
  mapSecondaryIdToDocumentId :: "string \<Rightarrow> nat"
  getEnvelopeWhereInput :: "EnvelopeIdOptions \<Rightarrow> EnvelopeType \<Rightarrow> nat \<Rightarrow> nat \<Rightarrow> Envelope \<Rightarrow> bool"
  unsafeBuildEnvelopeIdQuery :: "EnvelopeIdOptions \<Rightarrow> EnvelopeType \<Rightarrow> Envelope \<Rightarrow> bool"
  derivedRecipientAccessAuth :: "AuthOptions \<Rightarrow> AuthOptions \<Rightarrow> DocumentAuth list"
  derivedRecipientActionAuth :: "AuthOptions \<Rightarrow> AuthOptions \<Rightarrow> DocumentAuth list"
  isRecipientAuthorized :: "AuthOptions \<Rightarrow> Recipient \<Rightarrow> nat option \<Rightarrow> string \<Rightarrow> bool"
  recipientSigningRequest :: "DocumentMeta option \<Rightarrow> bool"
  putPdfFileServerSide :: "Envelope \<Rightarrow> EnvelopeItem \<Rightarrow> string"

section \<open>Sequencing of fallible, stateful steps\<close>

type_synonym 'a M = "World \<Rightarrow> (Failure + 'a) \<times> World"

definition returnM :: "'a \<Rightarrow> 'a M" where
  "returnM x w = (Inr x, w)"

definition throwM :: "Failure \<Rightarrow> 'a M" where
  "throwM e w = (Inl e, w)"

definition bindM :: "'a M \<Rightarrow> ('a \<Rightarrow> 'b M) \<Rightarrow> 'b M" where
  "bindM m f w = (case m w of (Inl e, w') \<Rightarrow> (Inl e, w') | (Inr x, w') \<Rightarrow> f x w')"

text \<open>A store write: rejected when the budget of writes is used up.\<close>

definition storeWrite :: "(World \<Rightarrow> World) \<Rightarrow> unit M" where
  "storeWrite f w =
     (case writesLeft w of
        None \<Rightarrow> (Inr (), f w)
      | Some 0 \<Rightarrow> (Inl PrismaStoreError, w)
      | Some (Suc n) \<Rightarrow> (Inr (), f (w\<lparr>writesLeft := Some n\<rparr>)))"

text \<open>
  \<open>prisma.$transaction\<close>: when the body throws, every table is put back as it was and the
  error is thrown on.  Jobs requested from inside the body are not undone.
\<close>

definition rollback :: "World \<Rightarrow> World \<Rightarrow> World" where
  "rollback w w' =
     w'\<lparr>envelopes := envelopes w, envelopeItems := envelopeItems w,
        recipients := recipients w, fieldRows := fieldRows w,
        signatures := signatures w, auditLogs := auditLogs w\<rparr>"

definition transaction :: "'a M \<Rightarrow> 'a M" where
  "transaction body w =
     (case body w of
        (Inl e, w') \<Rightarrow> (Inl e, rollback w w')
      | (Inr x, w') \<Rightarrow> (Inr x, w'))"

definition triggerJob :: "Job \<Rightarrow> unit M" where
  "triggerJob j w = (Inr (), w\<lparr>jobs := jobs w @ [j]\<rparr>)"

definition triggerWebhook :: "Webhook \<Rightarrow> unit M" where
  "triggerWebhook h w = (Inr (), w\<lparr>webhooks := webhooks w @ [h]\<rparr>)"

definition sendPendingEmail :: "EnvelopeIdOptions \<Rightarrow> nat \<Rightarrow> unit M" where
  "sendPendingEmail i rid w = (Inr (), w\<lparr>pendingEmails := pendingEmails w @ [(i, rid)]\<rparr>)"

definition createAuditLog :: "AuditLog \<Rightarrow> unit M" where
  "createAuditLog a = storeWrite (\<lambda>w. w\<lparr>auditLogs := auditLogs w @ [a]\<rparr>)"

definition createSignature :: "Signature \<Rightarrow> unit M" where
  "createSignature s = storeWrite (\<lambda>w. w\<lparr>signatures := signatures w @ [s]\<rparr>)"

definition updateRecipient :: "nat \<Rightarrow> (Recipient \<Rightarrow> Recipient) \<Rightarrow> unit M" where
  "updateRecipient rid g =
     storeWrite (\<lambda>w. w\<lparr>recipients := map (\<lambda>r. if r_id r = rid then g r else r) (recipients w)\<rparr>)"

definition updateField :: "nat \<Rightarrow> (Field \<Rightarrow> Field) \<Rightarrow> unit M" where
  "updateField fid g =
     storeWrite (\<lambda>w. w\<lparr>fieldRows := map (\<lambda>f. if f_id f = fid then g f else f) (fieldRows w)\<rparr>)"

definition updateEnvelope :: "string \<Rightarrow> (Envelope \<Rightarrow> Envelope) \<Rightarrow> unit M" where
  "updateEnvelope eid g =
     storeWrite (\<lambda>w. w\<lparr>envelopes := map (\<lambda>e. if e_id e = eid then g e else e) (envelopes w)\<rparr>)"

definition updateEnvelopeItem :: "string \<Rightarrow> (EnvelopeItem \<Rightarrow> EnvelopeItem) \<Rightarrow> unit M" where
  "updateEnvelopeItem iid g =
     storeWrite (\<lambda>w. w\<lparr>envelopeItems :=
        map (\<lambda>i. if ei_id i = iid then g i else i) (envelopeItems w)\<rparr>)"


section \<open>Helpers of the two operations\<close>

text \<open>
  Modelled from the spec: \<open>isDocumentCompleted\<close> (utils/document) is not among the sources.
  The specification: an envelope "cannot be re-sent once COMPLETED".
\<close>

definition isDocumentCompleted :: "DocumentStatus \<Rightarrow> bool" where
  "isDocumentCompleted s = (s = COMPLETED)"

text \<open>
  Modelled from the spec: \<open>fieldsContainUnsignedRequiredField\<close> (utils/advanced-fields-helpers)
  is not among the sources.  The specification: "Returns true iff any field in the input set
  is required (per its type/recipient-role semantics) and not inserted."
\<close>

definition fieldsContainUnsignedRequiredField :: "Field list \<Rightarrow> bool" where
  "fieldsContainUnsignedRequiredField fs = list_ex (\<lambda>f. f_required f \<and> \<not> f_inserted f) fs"

text \<open>\<open>orderBy: [{ signingOrder: { sort: 'asc', nulls: 'last' } }, { id: 'asc' }]\<close>\<close>

definition recipientOrderKey :: "Recipient \<Rightarrow> nat \<times> nat \<times> nat" where
  "recipientOrderKey r =
     (case r_signingOrder r of None \<Rightarrow> (1, 0, r_id r) | Some n \<Rightarrow> (0, n, r_id r))"

definition orderRecipients :: "Recipient list \<Rightarrow> Recipient list" where
  "orderRecipients rs = sort_key recipientOrderKey rs"

text \<open>
  Modelled from the spec: \<open>getIsRecipientsTurnToSign\<close> (recipient/get-is-recipient-turn) is
  not among the sources.  The specification: \<open>activeRecipient\<close> filters to the recipients
  with signing status NOT_SIGNED and role other than CC, orders them by (signing order
  ascending, nulls last, then identifier ascending) and returns the first, or null;
  \<open>isRecipientsTurn\<close> is "true iff the recipient identified by token equals
  \<open>activeRecipient(...)\<close> for their envelope".
\<close>

definition activeRecipient :: "Recipient list \<Rightarrow> Recipient option" where
  "activeRecipient rs =
     (case orderRecipients (filter (\<lambda>r. r_signingStatus r = NOT_SIGNED \<and> r_role r \<noteq> CC) rs) of
        [] \<Rightarrow> None
      | r # _ \<Rightarrow> Some r)"

definition getIsRecipientsTurnToSign :: "string \<Rightarrow> World \<Rightarrow> bool" where
  "getIsRecipientsTurnToSign token w =
     (case find (\<lambda>r. r_token r = token) (recipients w) of
        None \<Rightarrow> False
      | Some r \<Rightarrow>
          activeRecipient (filter (\<lambda>x. r_envelopeId x = r_envelopeId r) (recipients w)) = Some r)"

text \<open>A number inside a template literal: its decimal digits.\<close>

fun string_of_nat :: "nat \<Rightarrow> string" where
  "string_of_nat n =
     (if n < 10 then [''0123456789'' ! n]
      else string_of_nat (n div 10) @ [''0123456789'' ! (n mod 10)])"

declare string_of_nat.simps [simp del]

text \<open>JavaScript's \<open>a || b\<close> on strings: the empty string is falsy.\<close>

definition orElse :: "string \<Rightarrow> string \<Rightarrow> string" where
  "orElse a b = (if a = [] then b else a)"

text \<open>\<open>Set.add\<close>: a set of numbers iterates in the order of first insertion.\<close>

definition setAdd :: "nat \<Rightarrow> nat list \<Rightarrow> nat list" where
  "setAdd x s = (if x \<in> set s then s else s @ [x])"

fun forEachM :: "('a \<Rightarrow> unit M) \<Rightarrow> 'a list \<Rightarrow> unit M" where
  "forEachM body [] = returnM ()"
| "forEachM body (x # xs) = bindM (body x) (\<lambda>_. forEachM body xs)"

text \<open>
  \<open>findFirstOrThrow({ where: { id }, include: { documentMeta: true, recipients: true } })\<close>
\<close>

definition findEnvelopeWithRecipients ::
  "(Envelope \<Rightarrow> bool) \<Rightarrow> (Envelope \<times> Recipient list) M" where
  "findEnvelopeWithRecipients p w =
     (case find p (envelopes w) of
        None \<Rightarrow> (Inl PrismaNotFoundError, w)
      | Some e \<Rightarrow> (Inr (e, filter (\<lambda>r. r_envelopeId r = e_id e) (recipients w)), w))"

text \<open>\<open>field.findMany({ where: { envelopeId, recipientId } })\<close>\<close>

definition fieldsOfRecipient :: "string \<Rightarrow> nat \<Rightarrow> World \<Rightarrow> Field list" where
  "fieldsOfRecipient envelopeId recipientId w =
     filter (\<lambda>f. f_envelopeId f = envelopeId \<and> f_recipientId f = recipientId) (fieldRows w)"

section \<open>Auto-signing\<close>

text \<open>
  \<open>tx.field.findMany({ where: { envelopeId, autosign: true, inserted: false },
  include: { recipient: true } })\<close>.  The relation is required: a field without its recipient
  row makes the query fail.
\<close>

definition includeRecipient :: "Recipient list \<Rightarrow> Field \<Rightarrow> (Field \<times> Recipient) option" where
  "includeRecipient rs f = map_option (Pair f) (find (\<lambda>r. r_id r = f_recipientId f) rs)"

definition findAutoSignFields :: "string \<Rightarrow> (Field \<times> Recipient) list M" where
  "findAutoSignFields envelopeId w =
     (case those (map (includeRecipient (recipients w))
             (filter (\<lambda>f. f_envelopeId f = envelopeId \<and> f_autosign f \<and> \<not> f_inserted f)
                (fieldRows w))) of
        None \<Rightarrow> (Inl PrismaStoreError, w)
      | Some autoSignFields \<Rightarrow> (Inr autoSignFields, w))"

text \<open>
  The \<open>metadata\<close> of the audit entries of auto-signing.  In \<open>sendDocument\<close> the request
  metadata is an \<open>ApiRequestMetadata\<close>; in \<open>completeDocumentWithToken\<close> it is an optional
  plain \<open>RequestMetadata\<close>, which has no \<open>requestMetadata\<close> property of its own.
\<close>

definition autoSignMetadataSend :: "ApiRequestMetadata \<Rightarrow> AuditMetadata" where
  "autoSignMetadataSend rm =
     \<lparr>am_requestMetadata = (requestMetadata rm)\<lparr>ipAddress := None\<rparr>,
      am_apiContext = Some (apiContext rm),
      am_spread = None\<rparr>"

definition autoSignMetadataComplete :: "RequestMetadata option \<Rightarrow> AuditMetadata" where
  "autoSignMetadataComplete rm =
     \<lparr>am_requestMetadata = \<lparr>ipAddress = None, userAgent = None\<rparr>,
      am_apiContext = None,
      am_spread = rm\<rparr>"

text \<open>
  The body of \<open>for (const field of autoSignFields)\<close>, lines 186-231 of \<open>sendDocument\<close> and
  630-675 of \<open>completeDocumentWithToken\<close>; the two differ in the metadata only.
\<close>

definition autoSignField :: "string \<Rightarrow> AuditMetadata \<Rightarrow> Field \<times> Recipient \<Rightarrow> unit M" where
  "autoSignField envelopeId metadata fr =
     (case fr of (field, recipient) \<Rightarrow>
        bindM (if f_type field = SIGNATURE \<or> f_type field = FREE_SIGNATURE
               then createSignature
                      \<lparr>s_fieldId = f_id field, s_recipientId = f_recipientId field,
                       s_typedSignature = orElse (r_name recipient) (r_email recipient)\<rparr>
               else returnM ())
          (\<lambda>_. bindM (updateField (f_id field) (\<lambda>f. f\<lparr>f_inserted := True\<rparr>))
          (\<lambda>_. createAuditLog
                 \<lparr>a_envelopeId = envelopeId, a_user = None, a_requestMetadata = None,
                  a_metadata = Some metadata,
                  a_data = DOCUMENT_FIELD_INSERTED (r_email recipient) (f_recipientId field)
                             (r_name recipient) (r_role recipient) (f_secondaryId field)
                             (f_type field) (orElse (r_name recipient) (r_email recipient))\<rparr>)))"

fun autoSignFieldLoop ::
  "string \<Rightarrow> AuditMetadata \<Rightarrow> (Field \<times> Recipient) list \<Rightarrow> nat list \<Rightarrow> nat list M" where
  "autoSignFieldLoop envelopeId metadata [] recipientsWithAutoSignedFields =
     returnM recipientsWithAutoSignedFields"
| "autoSignFieldLoop envelopeId metadata (fr # rest) recipientsWithAutoSignedFields =
     bindM (autoSignField envelopeId metadata fr)
       (\<lambda>_. autoSignFieldLoop envelopeId metadata rest
               (setAdd (f_recipientId (fst fr)) recipientsWithAutoSignedFields))"

text \<open>The audit entry of a recipient completed by auto-signing.\<close>

definition autoCompletedAuditLog :: "string \<Rightarrow> AuditMetadata \<Rightarrow> Recipient \<Rightarrow> AuditLog" where
  "autoCompletedAuditLog envelopeId metadata recipient =
     \<lparr>a_envelopeId = envelopeId,
      a_user = Some (r_name recipient, r_email recipient),
      a_requestMetadata = None,
      a_metadata = Some metadata,
      a_data = DOCUMENT_RECIPIENT_COMPLETED (r_email recipient) (r_name recipient)
                 (r_id recipient) (r_role recipient) []\<rparr>"

definition markSigned :: "Externals \<Rightarrow> nat \<Rightarrow> unit M" where
  "markSigned ext recipientId =
     updateRecipient recipientId
       (\<lambda>r. r\<lparr>r_signingStatus := SIGNED, r_signedAt := Some (now ext)\<rparr>)"

text \<open>
  \<open>sendDocument\<close>, lines 234-285: the body of \<open>for (const recipientId of
  recipientsWithAutoSignedFields)\<close>.  The recipient is looked up in \<open>envelope.recipients\<close>,
  the rows read before the transaction.
\<close>

definition sendMarkRecipient ::
  "Externals \<Rightarrow> Envelope \<Rightarrow> Recipient list \<Rightarrow> ApiRequestMetadata \<Rightarrow> nat \<Rightarrow> unit M" where
  "sendMarkRecipient ext envelope envelope_recipients rm recipientId w =
     (case find (\<lambda>r. r_id r = recipientId) envelope_recipients of
        None \<Rightarrow> (Inr (), w)
      | Some recipient \<Rightarrow>
          (let recipientFields = fieldsOfRecipient (e_id envelope) recipientId w;
               hasUnsignedRequiredFields = fieldsContainUnsignedRequiredField recipientFields
           in if \<not> hasUnsignedRequiredFields \<and> r_signingStatus recipient \<noteq> SIGNED
              then bindM (markSigned ext recipientId)
                     (\<lambda>_. createAuditLog
                            (autoCompletedAuditLog (e_id envelope) (autoSignMetadataSend rm)
                               recipient)) w
              else (Inr (), w)))"

text \<open>\<open>sendDocument\<close>, lines 170-286.\<close>

definition sendAutoSign ::
  "Externals \<Rightarrow> Envelope \<Rightarrow> Recipient list \<Rightarrow> ApiRequestMetadata \<Rightarrow> unit M" where
  "sendAutoSign ext envelope envelope_recipients rm =
     bindM (findAutoSignFields (e_id envelope))
       (\<lambda>autoSignFields.
          if length autoSignFields > 0
          then bindM (autoSignFieldLoop (e_id envelope) (autoSignMetadataSend rm)
                        autoSignFields [])
                 (forEachM (sendMarkRecipient ext envelope envelope_recipients rm))
          else returnM ())"

text \<open>
  \<open>completeDocumentWithToken\<close>, lines 678-733: the recipient is read again inside the
  transaction (\<open>tx.recipient.findUnique\<close>).
\<close>

definition completeMarkRecipient ::
  "Externals \<Rightarrow> Envelope \<Rightarrow> RequestMetadata option \<Rightarrow> nat \<Rightarrow> unit M" where
  "completeMarkRecipient ext envelope rm recipientId w =
     (case find (\<lambda>r. r_id r = recipientId) (recipients w) of
        None \<Rightarrow> (Inr (), w)
      | Some recipientToCheck \<Rightarrow>
          if r_signingStatus recipientToCheck = SIGNED then (Inr (), w)
          else
            (let recipientFields = fieldsOfRecipient (e_id envelope) recipientId w;
                 hasUnsignedRequiredFields = fieldsContainUnsignedRequiredField recipientFields
             in if \<not> hasUnsignedRequiredFields
                then bindM (markSigned ext recipientId)
                       (\<lambda>_. createAuditLog
                              (autoCompletedAuditLog (e_id envelope)
                                 (autoSignMetadataComplete rm) recipientToCheck)) w
                else (Inr (), w)))"

text \<open>\<open>completeDocumentWithToken\<close>, lines 607-733 (inside \<open>if (allNonAutoSignFieldsComplete)\<close>).\<close>

definition completeAutoSign :: "Externals \<Rightarrow> Envelope \<Rightarrow> RequestMetadata option \<Rightarrow> unit M" where
  "completeAutoSign ext envelope rm =
     bindM (findAutoSignFields (e_id envelope))
       (\<lambda>autoSignFields.
          bindM (autoSignFieldLoop (e_id envelope) (autoSignMetadataComplete rm)
                   autoSignFields [])
            (forEachM (completeMarkRecipient ext envelope rm)))"


section \<open>sendDocument\<close>

record SendDocumentOptions =
  sd_id :: EnvelopeIdOptions
  sd_userId :: nat
  sd_teamId :: nat
  sd_sendEmail :: "bool option"
  sd_requestMetadata :: ApiRequestMetadata

text \<open>
  Lines 97-103, the block under \<open>if (signingOrder === DocumentSigningOrder.SEQUENTIAL)\<close>:
  the assignment to \<open>recipientsToNotify\<close>, then the expression statement
  \<open>recipientsToNotify.filter(...)\<close>, whose value is bound to nothing.
\<close>

definition sequentialRecipientsToNotify :: "Recipient list \<Rightarrow> Recipient list" where
  "sequentialRecipientsToNotify envelope_recipients =
     (let recipientsToNotify =
            take 1 (filter (\<lambda>r. r_signingStatus r = NOT_SIGNED \<and> r_role r \<noteq> CC)
                      envelope_recipients);
          unused = filter (\<lambda>r. r_sendStatus r \<noteq> SENT) recipientsToNotify
      in recipientsToNotify)"

text \<open>The same block with the secondary filter statement removed, as the claim words it.\<close>

definition sequentialRecipientsToNotify_filterRemoved :: "Recipient list \<Rightarrow> Recipient list" where
  "sequentialRecipientsToNotify_filterRemoved envelope_recipients =
     take 1 (filter (\<lambda>r. r_signingStatus r = NOT_SIGNED \<and> r_role r \<noteq> CC) envelope_recipients)"

text \<open>
  \<open>injectFormValuesIntoDocument\<close>: the PDF work is a collaborator's; what the store sees is
  the envelope item pointed at the new document data.
\<close>

definition injectFormValuesIntoDocument :: "Externals \<Rightarrow> Envelope \<Rightarrow> EnvelopeItem \<Rightarrow> unit M" where
  "injectFormValuesIntoDocument ext envelope envelopeItem =
     updateEnvelopeItem (ei_id envelopeItem)
       (\<lambda>i. i\<lparr>ei_documentDataId := putPdfFileServerSide ext envelope envelopeItem\<rparr>)"

text \<open>Lines 169-311: the transaction of \<open>sendDocument\<close>.\<close>

definition sendTransactionBody ::
  "Externals \<Rightarrow> Envelope \<Rightarrow> Recipient list \<Rightarrow> ApiRequestMetadata
     \<Rightarrow> (Envelope \<times> Recipient list) M" where
  "sendTransactionBody ext envelope envelope_recipients rm =
     bindM (sendAutoSign ext envelope envelope_recipients rm)
       (\<lambda>_. bindM (if e_status envelope = DRAFT
                    then createAuditLog
                           \<lparr>a_envelopeId = e_id envelope, a_user = None,
                            a_requestMetadata = None,
                            a_metadata = Some \<lparr>am_requestMetadata = requestMetadata rm,
                                               am_apiContext = Some (apiContext rm),
                                               am_spread = None\<rparr>,
                            a_data = DOCUMENT_SENT\<rparr>
                    else returnM ())
       (\<lambda>_. bindM (updateEnvelope (e_id envelope) (\<lambda>e. e\<lparr>e_status := PENDING\<rparr>))
       (\<lambda>_. findEnvelopeWithRecipients (\<lambda>e. e_id e = e_id envelope))))"

text \<open>Lines 322-336: the body of \<open>recipientsToNotify.map\<close>.\<close>

definition notifyRecipient :: "nat \<Rightarrow> nat \<Rightarrow> ApiRequestMetadata \<Rightarrow> Recipient \<Rightarrow> unit M" where
  "notifyRecipient userId legacyDocumentId rm recipient =
     (if r_sendStatus recipient = SENT \<or> r_role recipient = CC then returnM ()
      else triggerJob (send_signing_requested_email userId legacyDocumentId (r_id recipient)
                         (Some (requestMetadata rm))))"

text \<open>
  Lines 110-347 of \<open>sendDocument\<close>: what follows the lookups and the guards.  The steps of
  a \<open>Promise.all\<close> are taken one after the other.
\<close>

definition sendDocumentSteps ::
  "Externals \<Rightarrow> SendDocumentOptions \<Rightarrow> Envelope \<Rightarrow> Recipient list \<Rightarrow> EnvelopeItem list
     \<Rightarrow> Recipient list \<Rightarrow> (Envelope \<times> Recipient list) M" where
  "sendDocumentSteps ext opts envelope envelope_recipients envelope_envelopeItems
       recipientsToNotify =
     bindM (if e_formValues envelope \<noteq> None
            then forEachM (injectFormValuesIntoDocument ext envelope) envelope_envelopeItems
            else returnM ())
       (\<lambda>_. if list_all (\<lambda>r. r_role r = CC \<or> r_signingStatus r = SIGNED) envelope_recipients
             then bindM (triggerJob
                           (internal_seal_document
                              (mapSecondaryIdToDocumentId ext (e_secondaryId envelope))
                              (Some (requestMetadata (sd_requestMetadata opts)))))
                    (\<lambda>_. findEnvelopeWithRecipients (\<lambda>e. e_id e = e_id envelope))
             else
               bindM (transaction
                        (sendTransactionBody ext envelope envelope_recipients
                           (sd_requestMetadata opts)))
                 (\<lambda>updatedEnvelope.
                    bindM (if sd_sendEmail opts = Some True
                              \<or> (recipientSigningRequest ext (e_documentMeta envelope)
                                  \<and> sd_sendEmail opts = None)
                           then forEachM
                                  (notifyRecipient (sd_userId opts)
                                     (mapSecondaryIdToDocumentId ext (e_secondaryId envelope))
                                     (sd_requestMetadata opts))
                                  recipientsToNotify
                           else returnM ())
                      (\<lambda>_. bindM (triggerWebhook
                                    \<lparr>wh_event = DOCUMENT_SENT_EVENT,
                                     wh_envelope = fst updatedEnvelope,
                                     wh_recipients = snd updatedEnvelope,
                                     wh_userId = sd_userId opts,
                                     wh_teamId = Some (sd_teamId opts)\<rparr>)
                      (\<lambda>_. returnM updatedEnvelope))))"

text \<open>
  \<open>sendDocument\<close>, lines 47-108 and then the steps above, with the block of lines 97-103
  as a parameter.
\<close>

definition sendDocumentWith ::
  "(Recipient list \<Rightarrow> Recipient list) \<Rightarrow> Externals \<Rightarrow> SendDocumentOptions
     \<Rightarrow> (Envelope \<times> Recipient list) M" where
  "sendDocumentWith sequentialBlock ext opts w =
     (case find (getEnvelopeWhereInput ext (sd_id opts) DOCUMENT (sd_userId opts) (sd_teamId opts))
             (envelopes w) of
        None \<Rightarrow> (Inl (Error ''Document not found''), w)
      | Some envelope \<Rightarrow>
          (let envelope_recipients =
                 orderRecipients (filter (\<lambda>r. r_envelopeId r = e_id envelope) (recipients w));
               envelope_envelopeItems =
                 filter (\<lambda>i. ei_envelopeId i = e_id envelope) (envelopeItems w)
           in if length envelope_recipients = 0
              then (Inl (Error ''Document has no recipients''), w)
              else if isDocumentCompleted (e_status envelope)
              then (Inl (Error ''Can not send completed document''), w)
              else
                (let signingOrder =
                       (case e_documentMeta envelope of
                          None \<Rightarrow> PARALLEL
                        | Some m \<Rightarrow> (case dm_signingOrder m of None \<Rightarrow> PARALLEL | Some s \<Rightarrow> s));
                     recipientsToNotify =
                       (if signingOrder = SEQUENTIAL then sequentialBlock envelope_recipients
                        else envelope_recipients)
                 in if length envelope_envelopeItems = 0
                    then (Inl (Error ''Missing envelope items''), w)
                    else sendDocumentSteps ext opts envelope envelope_recipients
                           envelope_envelopeItems recipientsToNotify w)))"

definition sendDocument ::
  "Externals \<Rightarrow> SendDocumentOptions \<Rightarrow> (Envelope \<times> Recipient list) M" where
  "sendDocument = sendDocumentWith sequentialRecipientsToNotify"

definition sendDocument_filterRemoved ::
  "Externals \<Rightarrow> SendDocumentOptions \<Rightarrow> (Envelope \<times> Recipient list) M" where
  "sendDocument_filterRemoved = sendDocumentWith sequentialRecipientsToNotify_filterRemoved"

section \<open>completeDocumentWithToken\<close>

record CompleteDocumentWithTokenOptions =
  o_token :: string
  o_id :: EnvelopeIdOptions
  o_userId :: "nat option"
  o_accessAuthOptions :: "string option"
  o_requestMetadata :: "RequestMetadata option"
  o_nextSigner :: "(string \<times> string) option"
    \<comment> \<open>email, name\<close>

definition envelopeSigningOrder :: "Envelope \<Rightarrow> DocumentSigningOrder option" where
  "envelopeSigningOrder envelope =
     (case e_documentMeta envelope of None \<Rightarrow> None | Some m \<Rightarrow> dm_signingOrder m)"

text \<open>
  The queries of lines 439-456: the envelope that matches the identifier and has a
  recipient with the token, and its recipients with the token.
\<close>

definition findEnvelopeByToken ::
  "Externals \<Rightarrow> CompleteDocumentWithTokenOptions \<Rightarrow> World \<Rightarrow> Envelope option" where
  "findEnvelopeByToken ext opts w =
     find (\<lambda>e. unsafeBuildEnvelopeIdQuery ext (o_id opts) DOCUMENT e
              \<and> list_ex (\<lambda>r. r_envelopeId r = e_id e \<and> r_token r = o_token opts) (recipients w))
       (envelopes w)"

definition recipientsWithToken :: "Envelope \<Rightarrow> string \<Rightarrow> World \<Rightarrow> Recipient list" where
  "recipientsWithToken envelope token w =
     filter (\<lambda>r. r_envelopeId r = e_id envelope \<and> r_token r = token) (recipients w)"

text \<open>Lines 439-500: the lookup and the checks that come before any write.\<close>

definition completeChecks ::
  "Externals \<Rightarrow> CompleteDocumentWithTokenOptions \<Rightarrow> (Envelope \<times> Recipient) M" where
  "completeChecks ext opts w =
     (case findEnvelopeByToken ext opts w of
        None \<Rightarrow> (Inl PrismaNotFoundError, w)
      | Some envelope \<Rightarrow>
          if e_status envelope \<noteq> PENDING
          then (Inl (Error (''Document '' @ e_id envelope @ '' must be pending'')), w)
          else
            (case recipientsWithToken envelope (o_token opts) w of
               [] \<Rightarrow>
                 (Inl (Error (''Document '' @ e_id envelope @ '' has no recipient with token ''
                                @ o_token opts)), w)
             | recipient # _ \<Rightarrow>
                 if r_signingStatus recipient = SIGNED
                 then (Inl (Error (''Recipient '' @ string_of_nat (r_id recipient)
                                     @ '' has already signed'')), w)
                 else if r_signingStatus recipient = REJECTED
                 then (Inl (AppError UNKNOWN_ERROR
                              ''Recipient has already rejected the document'' (Some 400)), w)
                 else if envelopeSigningOrder envelope = Some SEQUENTIAL
                         \<and> \<not> getIsRecipientsTurnToSign (r_token recipient) w
                 then (Inl (Error (''Recipient '' @ string_of_nat (r_id recipient)
                          @ '' attempted to complete the document before it was their turn'')), w)
                 else if fieldsContainUnsignedRequiredField
                           (fieldsOfRecipient (e_id envelope) (r_id recipient) w)
                 then (Inl (Error (''Recipient '' @ string_of_nat (r_id recipient)
                                     @ '' has unsigned fields'')), w)
                 else (Inr (envelope, recipient), w)))"

text \<open>Lines 502-552: the access authentication step.\<close>

definition completeAccessAuth ::
  "Externals \<Rightarrow> CompleteDocumentWithTokenOptions \<Rightarrow> Envelope \<Rightarrow> Recipient \<Rightarrow> unit M" where
  "completeAccessAuth ext opts envelope recipient =
     (if TWO_FACTOR_AUTH \<in> set (derivedRecipientAccessAuth ext (e_authOptions envelope)
                                  (r_authOptions recipient))
      then (case o_accessAuthOptions opts of
              None \<Rightarrow> throwM (AppError UNAUTHORIZED ''Access authentication required'' None)
            | Some accessAuthOptions \<Rightarrow>
                if \<not> isRecipientAuthorized ext (e_authOptions envelope) recipient
                        (o_userId opts) accessAuthOptions
                then bindM (createAuditLog
                              \<lparr>a_envelopeId = e_id envelope, a_user = None,
                               a_requestMetadata = None, a_metadata = None,
                               a_data = DOCUMENT_ACCESS_AUTH_2FA_FAILED (r_id recipient)
                                          (r_name recipient) (r_email recipient)\<rparr>)
                       (\<lambda>_. throwM (AppError TWO_FACTOR_AUTH_FAILED
                                      ''Invalid 2FA authentication'' None))
                else createAuditLog
                       \<lparr>a_envelopeId = e_id envelope, a_user = None,
                        a_requestMetadata = None, a_metadata = None,
                        a_data = DOCUMENT_ACCESS_AUTH_2FA_VALIDATED (r_id recipient)
                                   (r_name recipient) (r_email recipient)\<rparr>)
      else returnM ())"

text \<open>The \<open>RECIPIENT_COMPLETED\<close> entry of the recipient who completes, lines 570-587.\<close>

definition completedAuditLog ::
  "Externals \<Rightarrow> CompleteDocumentWithTokenOptions \<Rightarrow> Envelope \<Rightarrow> Recipient \<Rightarrow> AuditLog" where
  "completedAuditLog ext opts envelope recipient =
     \<lparr>a_envelopeId = e_id envelope,
      a_user = Some (r_name recipient, r_email recipient),
      a_requestMetadata = o_requestMetadata opts,
      a_metadata = None,
      a_data = DOCUMENT_RECIPIENT_COMPLETED (r_email recipient) (r_name recipient)
                 (r_id recipient) (r_role recipient)
                 (derivedRecipientActionAuth ext (e_authOptions envelope)
                    (r_authOptions recipient))\<rparr>"

text \<open>Lines 554-735: the body of the first transaction.\<close>

definition completeTransactionBody ::
  "Externals \<Rightarrow> CompleteDocumentWithTokenOptions \<Rightarrow> Envelope \<Rightarrow> Recipient \<Rightarrow> unit M" where
  "completeTransactionBody ext opts envelope recipient =
     bindM (markSigned ext (r_id recipient))
       (\<lambda>_. bindM (createAuditLog (completedAuditLog ext opts envelope recipient))
       (\<lambda>_ w.
          (let allFields = filter (\<lambda>f. f_envelopeId f = e_id envelope) (fieldRows w);
               nonAutoSignFields = filter (\<lambda>f. \<not> f_autosign f) allFields;
               allNonAutoSignFieldsComplete =
                 \<not> fieldsContainUnsignedRequiredField nonAutoSignFields
           in if allNonAutoSignFieldsComplete
              then completeAutoSign ext envelope (o_requestMetadata opts) w
              else (Inr (), w))))"

definition dictatesNextSigner :: "CompleteDocumentWithTokenOptions \<Rightarrow> Envelope \<Rightarrow> bool" where
  "dictatesNextSigner opts envelope =
     (o_nextSigner opts \<noteq> None
      \<and> (case e_documentMeta envelope of None \<Rightarrow> False | Some m \<Rightarrow> dm_allowDictateNextSigner m))"

text \<open>Lines 773-828: the body of the second transaction.\<close>

definition advanceTransactionBody ::
  "Externals \<Rightarrow> CompleteDocumentWithTokenOptions \<Rightarrow> Envelope \<Rightarrow> Recipient \<Rightarrow> Recipient
     \<Rightarrow> unit M" where
  "advanceTransactionBody ext opts envelope recipient nextRecipient =
     bindM (case o_nextSigner opts of
              None \<Rightarrow> returnM ()
            | Some (email, name) \<Rightarrow>
                if dictatesNextSigner opts envelope
                then createAuditLog
                       \<lparr>a_envelopeId = e_id envelope,
                        a_user = Some (r_name recipient, r_email recipient),
                        a_requestMetadata = o_requestMetadata opts,
                        a_metadata = None,
                        a_data = RECIPIENT_UPDATED (r_email nextRecipient) (r_name nextRecipient)
                                   (r_id nextRecipient) (r_role nextRecipient)
                                   \<lparr>rc_nameFrom = r_name nextRecipient, rc_nameTo = name,
                                    rc_emailFrom = r_email nextRecipient, rc_emailTo = email\<rparr>\<rparr>
                else returnM ())
       (\<lambda>_. bindM (updateRecipient (r_id nextRecipient)
                     (\<lambda>r. case o_nextSigner opts of
                            None \<Rightarrow> r\<lparr>r_sendStatus := SENT\<rparr>
                          | Some (email, name) \<Rightarrow>
                              if dictatesNextSigner opts envelope
                              then r\<lparr>r_sendStatus := SENT, r_name := name, r_email := email\<rparr>
                              else r\<lparr>r_sendStatus := SENT\<rparr>))
       (\<lambda>_. triggerJob
              (send_signing_requested_email (e_userId envelope)
                 (mapSecondaryIdToDocumentId ext (e_secondaryId envelope))
                 (r_id nextRecipient) (o_requestMetadata opts))))"

text \<open>Lines 745-830: the pending recipients and the advance to the next one.\<close>

definition completeAdvance ::
  "Externals \<Rightarrow> CompleteDocumentWithTokenOptions \<Rightarrow> Envelope \<Rightarrow> Recipient \<Rightarrow> unit M" where
  "completeAdvance ext opts envelope recipient w =
     (let pendingRecipients =
            orderRecipients
              (filter (\<lambda>r. r_envelopeId r = e_id envelope \<and> r_signingStatus r \<noteq> SIGNED
                          \<and> r_role r \<noteq> CC) (recipients w))
      in case pendingRecipients of
           [] \<Rightarrow> (Inr (), w)
         | nextRecipient # _ \<Rightarrow>
             bindM (sendPendingEmail (o_id opts) (r_id recipient))
               (\<lambda>_. if envelopeSigningOrder envelope = Some SEQUENTIAL
                     then transaction
                            (advanceTransactionBody ext opts envelope recipient nextRecipient)
                     else returnM ()) w)"

text \<open>Lines 832-870: the seal request and the webhook.\<close>

definition haveAllRecipientsSigned :: "string \<Rightarrow> World \<Rightarrow> bool" where
  "haveAllRecipientsSigned envelopeId w =
     list_ex (\<lambda>e. e_id e = envelopeId
                \<and> list_all (\<lambda>r. r_signingStatus r = SIGNED \<or> r_role r = CC)
                    (filter (\<lambda>r. r_envelopeId r = e_id e) (recipients w)))
       (envelopes w)"

definition completeFinish ::
  "Externals \<Rightarrow> CompleteDocumentWithTokenOptions \<Rightarrow> Envelope \<Rightarrow> unit M" where
  "completeFinish ext opts envelope =
     bindM (\<lambda>w. if haveAllRecipientsSigned (e_id envelope) w
                then triggerJob
                       (internal_seal_document
                          (mapSecondaryIdToDocumentId ext (e_secondaryId envelope))
                          (o_requestMetadata opts)) w
                else (Inr (), w))
       (\<lambda>_. bindM (findEnvelopeWithRecipients
                     (\<lambda>e. e_id e = e_id envelope \<and> e_type e = DOCUMENT))
       (\<lambda>updatedDocument.
          triggerWebhook
            \<lparr>wh_event = DOCUMENT_SIGNED_EVENT,
             wh_envelope = fst updatedDocument,
             wh_recipients = snd updatedDocument,
             wh_userId = e_userId (fst updatedDocument),
             wh_teamId = e_teamId (fst updatedDocument)\<rparr>))"

definition completeDocumentWithToken ::
  "Externals \<Rightarrow> CompleteDocumentWithTokenOptions \<Rightarrow> unit M" where
  "completeDocumentWithToken ext opts =
     bindM (completeChecks ext opts)
       (\<lambda>(envelope, recipient).
          bindM (completeAccessAuth ext opts envelope recipient)
       (\<lambda>_. bindM (transaction (completeTransactionBody ext opts envelope recipient))
       (\<lambda>_. bindM (triggerJob
                     (send_recipient_signed_email
                        (mapSecondaryIdToDocumentId ext (e_secondaryId envelope))
                        (r_id recipient)))
       (\<lambda>_. bindM (completeAdvance ext opts envelope recipient)
       (\<lambda>_. completeFinish ext opts envelope)))))"


section \<open>Invariants and example states\<close>

text \<open>A predicate on worlds that a computation keeps, whether it returns or throws.\<close>

definition keeps :: "(World \<Rightarrow> bool) \<Rightarrow> 'a M \<Rightarrow> bool" where
  "keeps I m = (\<forall>w. I w \<longrightarrow> I (snd (m w)))"

text \<open>Nothing but the envelope items (and the budget of writes) differs from \<open>w0\<close>.\<close>

definition onlyItems :: "World \<Rightarrow> World \<Rightarrow> bool" where
  "onlyItems w0 w =
     (envelopes w = envelopes w0 \<and> recipients w = recipients w0 \<and> fieldRows w = fieldRows w0
      \<and> signatures w = signatures w0 \<and> auditLogs w = auditLogs w0 \<and> jobs w = jobs w0
      \<and> pendingEmails w = pendingEmails w0 \<and> webhooks w = webhooks w0)"

text \<open>The six tables of the store.\<close>

definition store ::
  "World \<Rightarrow> Envelope list \<times> EnvelopeItem list \<times> Recipient list \<times> Field list
     \<times> Signature list \<times> AuditLog list" where
  "store w = (envelopes w, envelopeItems w, recipients w, fieldRows w, signatures w, auditLogs w)"

text \<open>
  An invariant that no write to the recipient, field or signature tables can break, nor an
  audit entry that satisfies \<open>PA\<close>, nor a rollback.
\<close>

definition tolerant :: "(World \<Rightarrow> bool) \<Rightarrow> (AuditLog \<Rightarrow> bool) \<Rightarrow> bool" where
  "tolerant I PA =
     ((\<forall>w n. I w \<longrightarrow> I (w\<lparr>writesLeft := n\<rparr>))
      \<and> (\<forall>w a. PA a \<longrightarrow> I w \<longrightarrow> I (w\<lparr>auditLogs := auditLogs w @ [a]\<rparr>))
      \<and> (\<forall>w s. I w \<longrightarrow> I (w\<lparr>signatures := signatures w @ [s]\<rparr>))
      \<and> (\<forall>w rs. I w \<longrightarrow> I (w\<lparr>recipients := rs\<rparr>))
      \<and> (\<forall>w fs. I w \<longrightarrow> I (w\<lparr>fieldRows := fs\<rparr>))
      \<and> (\<forall>w w'. I w \<longrightarrow> I w' \<longrightarrow> I (rollback w w')))"

text \<open>
  The shape of the audit entries that auto-signing writes: no \<open>requestMetadata\<close> option, the
  given \<open>metadata\<close>, and a FIELD_INSERTED payload or a RECIPIENT_COMPLETED payload with an
  empty \<open>actionAuth\<close>.
\<close>

definition autoSignEntry :: "string \<Rightarrow> AuditMetadata \<Rightarrow> AuditLog \<Rightarrow> bool" where
  "autoSignEntry envelopeId metadata a =
     (a_envelopeId a = envelopeId \<and> a_requestMetadata a = None \<and> a_metadata a = Some metadata
      \<and> (case a_data a of
            DOCUMENT_FIELD_INSERTED _ _ _ _ _ _ _ \<Rightarrow> True
          | DOCUMENT_RECIPIENT_COMPLETED _ _ _ _ actionAuth \<Rightarrow> actionAuth = []
          | _ \<Rightarrow> False))"

definition twoFactorEntry :: "AuditLog \<Rightarrow> bool" where
  "twoFactorEntry a =
     (case a_data a of
        DOCUMENT_ACCESS_AUTH_2FA_FAILED _ _ _ \<Rightarrow> True
      | DOCUMENT_ACCESS_AUTH_2FA_VALIDATED _ _ _ \<Rightarrow> True
      | _ \<Rightarrow> False)"

fun isSealRequest :: "Job \<Rightarrow> bool" where
  "isSealRequest (internal_seal_document _ _) = True"
| "isSealRequest _ = False"

text \<open>A log that only grows, by entries that satisfy \<open>P\<close>.\<close>

definition grows :: "('a \<Rightarrow> bool) \<Rightarrow> 'a list \<Rightarrow> 'a list \<Rightarrow> bool" where
  "grows P xs ys = (\<exists>new. ys = xs @ new \<and> list_all P new)"

definition sameEnvelopes :: "World \<Rightarrow> World \<Rightarrow> bool" where
  "sameEnvelopes w0 w = (envelopes w = envelopes w0 \<and> envelopeItems w = envelopeItems w0)"

text \<open>
  A job that \<open>sendDocument\<close> may request, given the recipient rows: a signing-requested
  email only for a recipient who is neither SENT nor CC.
\<close>

fun notifiable :: "Recipient list \<Rightarrow> Job \<Rightarrow> bool" where
  "notifiable rs (send_signing_requested_email _ _ recipientId _) =
     list_ex (\<lambda>r. r_id r = recipientId \<and> r_sendStatus r \<noteq> SENT \<and> r_role r \<noteq> CC) rs"
| "notifiable rs _ = True"

text \<open>
  Modelled from the spec: \<open>createDocumentAuditLogData\<close> (utils/document-audit-logs), which
  turns the options into the stored entry, is not among the sources.  The specification's
  audit entry carries the requester IP of the request metadata it is given, or none.  Here
  the IP address of an entry is the one of the \<open>requestMetadata\<close> property of its
  \<open>metadata\<close> (the property the source clears with the comment "No IP for auto-signed
  fields"), else the one of its \<open>requestMetadata\<close> option; its action-auth claims are the
  \<open>actionAuth\<close> of its data.
\<close>

definition auditIpAddress :: "AuditLog \<Rightarrow> string option" where
  "auditIpAddress a =
     (case (case a_metadata a of None \<Rightarrow> None | Some m \<Rightarrow> ipAddress (am_requestMetadata m)) of
        Some ip \<Rightarrow> Some ip
      | None \<Rightarrow> (case a_requestMetadata a of None \<Rightarrow> None | Some m \<Rightarrow> ipAddress m))"

definition auditActionAuth :: "AuditLog \<Rightarrow> DocumentAuth list" where
  "auditActionAuth a =
     (case a_data a of
        DOCUMENT_RECIPIENT_COMPLETED _ _ _ _ actionAuth \<Rightarrow> actionAuth
      | _ \<Rightarrow> [])"

text \<open>
  An entry of the system's own: no request metadata, no IP address, no action-auth claims,
  and the kind FIELD_INSERTED or RECIPIENT_COMPLETED.
\<close>

definition systemEntry :: "AuditLog \<Rightarrow> bool" where
  "systemEntry a =
     (a_requestMetadata a = None \<and> auditIpAddress a = None \<and> auditActionAuth a = []
      \<and> (case a_data a of
            DOCUMENT_FIELD_INSERTED _ _ _ _ _ _ _ \<Rightarrow> True
          | DOCUMENT_RECIPIENT_COMPLETED _ _ _ _ _ \<Rightarrow> True
          | _ \<Rightarrow> False))"

text \<open>
  Frames.  A recipient row of a later state against its row in the earlier state: the
  identifier and the envelope are kept, and the whole row is kept unless its identifier is
  in \<open>RS\<close>.
\<close>

definition recipientKept :: "nat set \<Rightarrow> Recipient \<Rightarrow> Recipient \<Rightarrow> bool" where
  "recipientKept RS r0 r =
     (r_id r = r_id r0 \<and> r_envelopeId r = r_envelopeId r0 \<and> (r_id r0 \<notin> RS \<longrightarrow> r = r0))"

text \<open>
  The same for a field row; the writes of the two operations also never clear
  \<open>inserted\<close>.
\<close>

definition fieldKept :: "nat set \<Rightarrow> Field \<Rightarrow> Field \<Rightarrow> bool" where
  "fieldKept FS f0 f =
     (f_id f = f_id f0 \<and> f_envelopeId f = f_envelopeId f0 \<and> f_recipientId f = f_recipientId f0
      \<and> f_autosign f = f_autosign f0 \<and> f_required f = f_required f0
      \<and> (f_inserted f0 \<longrightarrow> f_inserted f) \<and> (f_id f0 \<notin> FS \<longrightarrow> f = f0))"

definition fieldInsertedEntry :: "AuditLog \<Rightarrow> bool" where
  "fieldInsertedEntry a =
     (case a_data a of DOCUMENT_FIELD_INSERTED _ _ _ _ _ _ _ \<Rightarrow> True | _ \<Rightarrow> False)"

text \<open>
  The later state \<open>w\<close> differs from \<open>w0\<close> only in recipient rows with identifier in
  \<open>RS\<close>, field rows with identifier in \<open>FS\<close>, added signatures of fields in \<open>FS\<close> and
  added audit entries satisfying \<open>PA\<close>.
\<close>

definition frame :: "nat set \<Rightarrow> nat set \<Rightarrow> (AuditLog \<Rightarrow> bool) \<Rightarrow> World \<Rightarrow> World \<Rightarrow> bool" where
  "frame RS FS PA w0 w =
     (list_all2 (recipientKept RS) (recipients w0) (recipients w)
      \<and> list_all2 (fieldKept FS) (fieldRows w0) (fieldRows w)
      \<and> grows (\<lambda>s. s_fieldId s \<in> FS) (signatures w0) (signatures w)
      \<and> grows PA (auditLogs w0) (auditLogs w)
      \<and> envelopes w = envelopes w0 \<and> envelopeItems w = envelopeItems w0)"

text \<open>A field row after the insertion loop has run over the fields with identifier in \<open>ids\<close>.\<close>

definition insertedAfter :: "nat set \<Rightarrow> Field \<Rightarrow> Field \<Rightarrow> bool" where
  "insertedAfter ids x x' =
     (f_id x' = f_id x \<and> f_envelopeId x' = f_envelopeId x \<and> f_autosign x' = f_autosign x
      \<and> (f_inserted x \<or> f_id x \<in> ids \<longrightarrow> f_inserted x'))"

text \<open>What an auto-sign resolution may touch: recipients not SIGNED, and the fields it selects.\<close>

definition unsignedIds :: "World \<Rightarrow> nat set" where
  "unsignedIds w = r_id ` {r \<in> set (recipients w). r_signingStatus r \<noteq> SIGNED}"

definition pendingAutoSignIds :: "string \<Rightarrow> World \<Rightarrow> nat set" where
  "pendingAutoSignIds E w =
     f_id ` {f \<in> set (fieldRows w). f_envelopeId f = E \<and> f_autosign f \<and> \<not> f_inserted f}"

text \<open>A RECIPIENT_COMPLETED audit entry is about a recipient in \<open>RS\<close>.\<close>

definition completionOf :: "nat set \<Rightarrow> AuditLog \<Rightarrow> bool" where
  "completionOf RS a =
     (case a_data a of DOCUMENT_RECIPIENT_COMPLETED _ _ rid _ _ \<Rightarrow> rid \<in> RS | _ \<Rightarrow> True)"

text \<open>
  The resolution leaves SIGNED recipients and inserted fields as they were, adds signatures
  only for the fields it selected, and logs a completion only for recipients that were not
  SIGNED.
\<close>

definition resolutionRespects :: "string \<Rightarrow> World \<Rightarrow> World \<Rightarrow> bool" where
  "resolutionRespects E w w' =
     (list_all2 (\<lambda>r0 r. r_signingStatus r0 = SIGNED \<longrightarrow> r = r0) (recipients w) (recipients w')
      \<and> list_all2 (\<lambda>f0 f. f_inserted f0 \<longrightarrow> f = f0) (fieldRows w) (fieldRows w')
      \<and> grows (\<lambda>s. s_fieldId s \<in> pendingAutoSignIds E w) (signatures w) (signatures w')
      \<and> grows (completionOf (unsignedIds w)) (auditLogs w) (auditLogs w'))"

text \<open>The rows of envelope \<open>E\<close>.\<close>

definition ownRecipientIds :: "string \<Rightarrow> World \<Rightarrow> nat set" where
  "ownRecipientIds E w = r_id ` {r \<in> set (recipients w). r_envelopeId r = E}"

definition ownFieldIds :: "string \<Rightarrow> World \<Rightarrow> nat set" where
  "ownFieldIds E w = f_id ` {f \<in> set (fieldRows w). f_envelopeId f = E}"

definition fieldRecipientIds :: "string \<Rightarrow> World \<Rightarrow> nat set" where
  "fieldRecipientIds E w = f_recipientId ` {f \<in> set (fieldRows w). f_envelopeId f = E}"

text \<open>
  Primary keys are unique, and a field's recipient, when the row exists, belongs to the
  field's envelope.
\<close>

definition wellKeyed :: "World \<Rightarrow> bool" where
  "wellKeyed w =
     (distinct (map r_id (recipients w)) \<and> distinct (map f_id (fieldRows w))
      \<and> list_all (\<lambda>f. list_all (\<lambda>r. r_id r = f_recipientId f \<longrightarrow> r_envelopeId r = f_envelopeId f)
                        (recipients w))
           (fieldRows w))"

text \<open>
  Every difference between \<open>w\<close> and \<open>w'\<close> is in recipient and field rows of envelope
  \<open>E\<close>, in added signatures of its fields and in added audit entries of \<open>E\<close>.
\<close>

definition confinedTo :: "string \<Rightarrow> World \<Rightarrow> World \<Rightarrow> bool" where
  "confinedTo E w w' =
     (list_all2 (\<lambda>r0 r. r_envelopeId r0 \<noteq> E \<longrightarrow> r = r0) (recipients w) (recipients w')
      \<and> list_all2 (\<lambda>f0 f. f_envelopeId f0 \<noteq> E \<longrightarrow> f = f0) (fieldRows w) (fieldRows w')
      \<and> grows (\<lambda>s. s_fieldId s \<in> ownFieldIds E w) (signatures w) (signatures w')
      \<and> grows (\<lambda>a. a_envelopeId a = E) (auditLogs w) (auditLogs w')
      \<and> envelopes w' = envelopes w \<and> envelopeItems w' = envelopeItems w)"


text \<open>
  Example states: one envelope \<open>env1\<close> (legacy document id 7) with one item, and the
  recipients and fields given.
\<close>

definition exampleExternals :: Externals where
  "exampleExternals =
     \<lparr>now = 100,
      mapSecondaryIdToDocumentId = (\<lambda>_. 7),
      getEnvelopeWhereInput = (\<lambda>i t u tm e. e_id e = i \<and> e_type e = t),
      unsafeBuildEnvelopeIdQuery = (\<lambda>i t e. e_id e = i \<and> e_type e = t),
      derivedRecipientAccessAuth = (\<lambda>_ _. []),
      derivedRecipientActionAuth = (\<lambda>_ _. [PASSKEY]),
      isRecipientAuthorized = (\<lambda>_ _ _ _. True),
      recipientSigningRequest = (\<lambda>_. True),
      putPdfFileServerSide = (\<lambda>_ i. ei_documentDataId i @ ''_prefilled'')\<rparr>"

definition exampleEnvelope :: "DocumentStatus \<Rightarrow> DocumentSigningOrder \<Rightarrow> Envelope" where
  "exampleEnvelope st so =
     \<lparr>e_id = ''env1'', e_secondaryId = ''document_7'', e_type = DOCUMENT, e_status = st,
      e_userId = 1, e_teamId = Some 1, e_title = ''contract'', e_formValues = None,
      e_authOptions = [],
      e_documentMeta = Some \<lparr>dm_signingOrder = Some so, dm_allowDictateNextSigner = False,
                              dm_emailSettings = []\<rparr>\<rparr>"

definition exampleRecipient ::
  "nat \<Rightarrow> string \<Rightarrow> RecipientRole \<Rightarrow> SigningStatus \<Rightarrow> SendStatus \<Rightarrow> Recipient" where
  "exampleRecipient i tok role st sst =
     \<lparr>r_id = i, r_envelopeId = ''env1'', r_token = tok, r_name = ''N'', r_email = ''n@x'',
      r_role = role, r_signingOrder = Some i, r_signingStatus = st, r_sendStatus = sst,
      r_signedAt = None, r_authOptions = []\<rparr>"

definition exampleField :: "nat \<Rightarrow> nat \<Rightarrow> bool \<Rightarrow> bool \<Rightarrow> Field" where
  "exampleField i rid ins auto =
     \<lparr>f_id = i, f_secondaryId = ''field'', f_envelopeId = ''env1'', f_recipientId = rid,
      f_type = SIGNATURE, f_inserted = ins, f_autosign = auto, f_required = True\<rparr>"

definition exampleWorld ::
  "DocumentStatus \<Rightarrow> DocumentSigningOrder \<Rightarrow> Recipient list \<Rightarrow> Field list \<Rightarrow> nat option
     \<Rightarrow> World" where
  "exampleWorld st so rs fs n =
     \<lparr>envelopes = [exampleEnvelope st so],
      envelopeItems = [\<lparr>ei_id = ''item1'', ei_envelopeId = ''env1'', ei_documentDataId = ''data1''\<rparr>],
      recipients = rs, fieldRows = fs, signatures = [], auditLogs = [], jobs = [],
      pendingEmails = [], webhooks = [], writesLeft = n\<rparr>"

definition exampleCompleteOptions :: "string \<Rightarrow> CompleteDocumentWithTokenOptions" where
  "exampleCompleteOptions tok =
     \<lparr>o_token = tok, o_id = ''env1'', o_userId = None, o_accessAuthOptions = None,
      o_requestMetadata = Some \<lparr>ipAddress = Some ''10.0.0.1'', userAgent = None\<rparr>,
      o_nextSigner = None\<rparr>"

definition exampleSendOptions :: SendDocumentOptions where
  "exampleSendOptions =
     \<lparr>sd_id = ''env1'', sd_userId = 1, sd_teamId = 1, sd_sendEmail = None,
      sd_requestMetadata =
        \<lparr>requestMetadata = \<lparr>ipAddress = Some ''10.0.0.1'', userAgent = None\<rparr>,
         apiContext = ''app''\<rparr>\<rparr>"

text \<open>
  Two envelopes.  In \<open>env1\<close> recipient 1 has an inserted field and recipient 2 an auto-sign
  field not yet inserted; recipient 3 and its auto-sign field belong to \<open>env2\<close>.
\<close>

definition exampleTwoEnvelopes :: World where
  "exampleTwoEnvelopes =
     \<lparr>envelopes = [exampleEnvelope PENDING PARALLEL,
                   (exampleEnvelope PENDING PARALLEL)\<lparr>e_id := ''env2''\<rparr>],
      envelopeItems = [\<lparr>ei_id = ''item1'', ei_envelopeId = ''env1'', ei_documentDataId = ''data1''\<rparr>],
      recipients = [exampleRecipient 1 ''t1'' SIGNER NOT_SIGNED SENT,
                    exampleRecipient 2 ''t2'' SIGNER NOT_SIGNED SENT,
                    (exampleRecipient 3 ''t3'' SIGNER NOT_SIGNED SENT)\<lparr>r_envelopeId := ''env2''\<rparr>],
      fieldRows = [exampleField 1 2 False True, exampleField 2 1 True False,
                   (exampleField 3 3 False True)\<lparr>f_envelopeId := ''env2''\<rparr>],
      signatures = [], auditLogs = [], jobs = [], pendingEmails = [], webhooks = [],
      writesLeft = None\<rparr>"

section \<open>Basic facts\<close>

lemmas example_defs =
  exampleExternals_def exampleEnvelope_def exampleRecipient_def exampleField_def
  exampleWorld_def exampleCompleteOptions_def exampleSendOptions_def
  findEnvelopeByToken_def recipientsWithToken_def fieldsOfRecipient_def
  envelopeSigningOrder_def getIsRecipientsTurnToSign_def activeRecipient_def
  orderRecipients_def recipientOrderKey_def fieldsContainUnsignedRequiredField_def

lemma bindM_Inr_iff:
  "bindM m f w = (Inr y, w') \<longleftrightarrow> (\<exists>x w1. m w = (Inr x, w1) \<and> f x w1 = (Inr y, w'))"
  by (auto simp: bindM_def split: prod.splits sum.splits)

lemma bindM_Inl_iff:
  "bindM m f w = (Inl e, w') \<longleftrightarrow>
     m w = (Inl e, w') \<or> (\<exists>x w1. m w = (Inr x, w1) \<and> f x w1 = (Inl e, w'))"
  by (auto simp: bindM_def split: prod.splits sum.splits)

lemma storeWrite_unlimited: "writesLeft w = None \<Longrightarrow> storeWrite f w = (Inr (), f w)"
  by (simp add: storeWrite_def)

lemma list_all_orderRecipients [simp]: "list_all P (orderRecipients rs) = list_all P rs"
  by (simp add: orderRecipients_def list_all_iff)

lemma orderRecipients_Nil [simp]: "orderRecipients rs = [] \<longleftrightarrow> rs = []"
  by (metis length_0_conv length_sort orderRecipients_def)

lemma set_orderRecipients [simp]: "set (orderRecipients rs) = set rs"
  by (simp add: orderRecipients_def)

subsection \<open>Keeping an invariant\<close>

lemma keepsI: "(\<And>w. I w \<Longrightarrow> I (snd (m w))) \<Longrightarrow> keeps I m"
  by (simp add: keeps_def)

lemma keepsD: "keeps I m \<Longrightarrow> I w \<Longrightarrow> I (snd (m w))"
  by (simp add: keeps_def)

lemma keeps_returnM: "keeps I (returnM x)"
  by (simp add: keeps_def returnM_def)

lemma keeps_throwM: "keeps I (throwM e)"
  by (simp add: keeps_def throwM_def)

lemma keeps_bindM:
  assumes "keeps I m" and "\<And>x. keeps I (f x)"
  shows "keeps I (bindM m f)"
proof (rule keepsI)
  fix w assume "I w"
  then have "I (snd (m w))" using assms(1) by (rule keepsD[rotated])
  then show "I (snd (bindM m f w))"
    using assms(2) by (cases "m w") (auto simp: bindM_def keeps_def split: sum.splits)
qed

lemma keeps_bindM_val:
  assumes "keeps I m"
    and "\<And>w x w1. I w \<Longrightarrow> m w = (Inr x, w1) \<Longrightarrow> I w1 \<Longrightarrow> I (snd (f x w1))"
  shows "keeps I (bindM m f)"
proof (rule keepsI)
  fix w assume w: "I w"
  then have 1: "I (snd (m w))" using assms(1) by (rule keepsD[rotated])
  show "I (snd (bindM m f w))"
  proof (cases "m w")
    case (Pair r w1)
    then show ?thesis using 1 w assms(2)[of w _ w1]
      by (cases r) (auto simp: bindM_def)
  qed
qed

lemma keeps_storeWrite:
  assumes "\<And>w n. I w \<Longrightarrow> I (f (w\<lparr>writesLeft := n\<rparr>))"
  shows "keeps I (storeWrite f)"
proof (rule keepsI)
  fix w assume w: "I w"
  have "f w = f (w\<lparr>writesLeft := writesLeft w\<rparr>)" by simp
  then have "I (f w)" using assms[OF w, of "writesLeft w"] by simp
  then show "I (snd (storeWrite f w))"
    using w assms[OF w] by (auto simp: storeWrite_def split: option.splits nat.splits)
qed

lemma keeps_transaction:
  assumes "keeps I body" and "\<And>w w'. I w \<Longrightarrow> I w' \<Longrightarrow> I (rollback w w')"
  shows "keeps I (transaction body)"
proof (rule keepsI)
  fix w assume w: "I w"
  then have "I (snd (body w))" using assms(1) by (rule keepsD[rotated])
  then show "I (snd (transaction body w))"
    using assms(2)[OF w] by (cases "body w") (auto simp: transaction_def split: sum.splits)
qed

lemma keeps_forEachM:
  assumes "\<And>x. x \<in> set xs \<Longrightarrow> keeps I (body x)"
  shows "keeps I (forEachM body xs)"
  using assms by (induction xs) (auto intro: keeps_returnM keeps_bindM)

lemma keeps_autoSignFieldLoop:
  assumes "\<And>fr. fr \<in> set frs \<Longrightarrow> keeps I (autoSignField E md fr)"
  shows "keeps I (autoSignFieldLoop E md frs seen)"
  using assms by (induction frs arbitrary: seen) (auto intro: keeps_returnM keeps_bindM)

section \<open>The secondary filter of sendDocument\<close>

lemma sequentialRecipientsToNotify_find:
  "sequentialRecipientsToNotify rs =
     (case find (\<lambda>r. r_signingStatus r = NOT_SIGNED \<and> r_role r \<noteq> CC) rs of
        None \<Rightarrow> [] | Some r \<Rightarrow> [r])"
  unfolding sequentialRecipientsToNotify_def Let_def
  by (induction rs) auto

text \<open>
  Claim C9.  Under SEQUENTIAL order the secondary send-status filter of \<open>sendDocument\<close> has
  no effect: \<open>sendDocument\<close> equals, on every state, the function with that statement
  removed, and the list to notify after the block holds exactly the first NOT_SIGNED non-CC
  recipient (none when there is no such recipient), whatever its send status.
\<close>

theorem sendDocument_secondary_filter_noop:
  "sendDocument ext opts w = sendDocument_filterRemoved ext opts w
   \<and> sequentialRecipientsToNotify rs =
       (case find (\<lambda>r. r_signingStatus r = NOT_SIGNED \<and> r_role r \<noteq> CC) rs of
          None \<Rightarrow> [] | Some r \<Rightarrow> [r])"
proof -
  have "sequentialRecipientsToNotify = sequentialRecipientsToNotify_filterRemoved"
    by (rule ext) (simp add: sequentialRecipientsToNotify_def
        sequentialRecipientsToNotify_filterRemoved_def)
  then have "sendDocument ext opts w = sendDocument_filterRemoved ext opts w"
    by (simp add: sendDocument_def sendDocument_filterRemoved_def)
  then show ?thesis
    using sequentialRecipientsToNotify_find [of rs] by simp
qed

theorem sendDocument_secondary_filter_noop_witness:
  "sequentialRecipientsToNotify
     [exampleRecipient 1 ''t1'' SIGNER SIGNED SENT, exampleRecipient 2 ''t2'' SIGNER NOT_SIGNED SENT,
      exampleRecipient 3 ''t3'' SIGNER NOT_SIGNED NOT_SENT]
   = [exampleRecipient 2 ''t2'' SIGNER NOT_SIGNED SENT]"
  using sendDocument_secondary_filter_noop
    [of _ _ _ "[exampleRecipient 1 ''t1'' SIGNER SIGNED SENT,
                exampleRecipient 2 ''t2'' SIGNER NOT_SIGNED SENT,
                exampleRecipient 3 ''t3'' SIGNER NOT_SIGNED NOT_SENT]"]
  by (simp add: exampleRecipient_def)


section \<open>The checks of completeDocumentWithToken\<close>

lemma findEnvelopeByToken_recipients:
  "findEnvelopeByToken ext opts w = Some envelope \<Longrightarrow>
     recipientsWithToken envelope (o_token opts) w \<noteq> []"
  by (auto simp: findEnvelopeByToken_def recipientsWithToken_def find_Some_iff list_ex_iff
      filter_empty_conv)

text \<open>
  Claim C1, as amended.  Every call of \<open>completeDocumentWithToken\<close> whose envelope is
  not PENDING, whose token matches no recipient of the envelope, whose recipient is already
  SIGNED or REJECTED, whose recipient is not the active one under SEQUENTIAL order, or whose
  recipient has an unsigned required field, fails and leaves the world as it was.  The
  error thrown is the one of the first check that fails: the store's not-found error when
  no envelope with the identifier has a recipient with the token (an envelope found always
  has one), a plain \<open>Error\<close> with the message of the failed check, or an \<open>AppError\<close>
  with code UNKNOWN_ERROR for a recipient who has rejected.  The errors of different
  checks are different values, but only their message text tells the plain ones apart.
\<close>

theorem completeDocumentWithToken_precondition_failures:
  "(findEnvelopeByToken ext opts w = None \<longrightarrow>
      completeDocumentWithToken ext opts w = (Inl PrismaNotFoundError, w))
   \<and> (\<forall>envelope. findEnvelopeByToken ext opts w = Some envelope \<longrightarrow>
        recipientsWithToken envelope (o_token opts) w \<noteq> []
        \<and> (e_status envelope \<noteq> PENDING \<longrightarrow>
             completeDocumentWithToken ext opts w =
               (Inl (Error (''Document '' @ e_id envelope @ '' must be pending'')), w))
        \<and> (\<forall>recipient rest.
             e_status envelope = PENDING
             \<and> recipientsWithToken envelope (o_token opts) w = recipient # rest \<longrightarrow>
             (r_signingStatus recipient = SIGNED \<longrightarrow>
                completeDocumentWithToken ext opts w =
                  (Inl (Error (''Recipient '' @ string_of_nat (r_id recipient)
                                 @ '' has already signed'')), w))
             \<and> (r_signingStatus recipient = REJECTED \<longrightarrow>
                completeDocumentWithToken ext opts w =
                  (Inl (AppError UNKNOWN_ERROR
                          ''Recipient has already rejected the document'' (Some 400)), w))
             \<and> (r_signingStatus recipient = NOT_SIGNED
                  \<and> envelopeSigningOrder envelope = Some SEQUENTIAL
                  \<and> \<not> getIsRecipientsTurnToSign (r_token recipient) w \<longrightarrow>
                completeDocumentWithToken ext opts w =
                  (Inl (Error (''Recipient '' @ string_of_nat (r_id recipient)
                     @ '' attempted to complete the document before it was their turn'')), w))
             \<and> (r_signingStatus recipient = NOT_SIGNED
                  \<and> (envelopeSigningOrder envelope = Some SEQUENTIAL
                        \<longrightarrow> getIsRecipientsTurnToSign (r_token recipient) w)
                  \<and> fieldsContainUnsignedRequiredField
                        (fieldsOfRecipient (e_id envelope) (r_id recipient) w) \<longrightarrow>
                completeDocumentWithToken ext opts w =
                  (Inl (Error (''Recipient '' @ string_of_nat (r_id recipient)
                                 @ '' has unsigned fields'')), w))
             \<and> (r_signingStatus recipient = SIGNED
                  \<or> r_signingStatus recipient = REJECTED
                  \<or> (envelopeSigningOrder envelope = Some SEQUENTIAL
                        \<and> \<not> getIsRecipientsTurnToSign (r_token recipient) w)
                  \<or> fieldsContainUnsignedRequiredField
                        (fieldsOfRecipient (e_id envelope) (r_id recipient) w) \<longrightarrow>
                (\<exists>e. completeDocumentWithToken ext opts w = (Inl e, w)))))
   \<and> (\<forall>i n. distinct
         [PrismaNotFoundError,
          Error (''Document '' @ i @ '' must be pending''),
          Error (''Recipient '' @ n @ '' has already signed''),
          AppError UNKNOWN_ERROR ''Recipient has already rejected the document'' (Some 400),
          Error (''Recipient '' @ n
                   @ '' attempted to complete the document before it was their turn''),
          Error (''Recipient '' @ n @ '' has unsigned fields'')])"
proof -
  have found: "\<forall>envelope. findEnvelopeByToken ext opts w = Some envelope \<longrightarrow>
      recipientsWithToken envelope (o_token opts) w \<noteq> []"
    using findEnvelopeByToken_recipients by blast
  have msgs: "\<forall>i n. distinct
         [PrismaNotFoundError,
          Error (''Document '' @ i @ '' must be pending''),
          Error (''Recipient '' @ n @ '' has already signed''),
          AppError UNKNOWN_ERROR ''Recipient has already rejected the document'' (Some 400),
          Error (''Recipient '' @ n
                   @ '' attempted to complete the document before it was their turn''),
          Error (''Recipient '' @ n @ '' has unsigned fields'')]"
    by simp
  show ?thesis
    apply (intro conjI allI impI)
    using found msgs
    by (auto simp: completeDocumentWithToken_def completeChecks_def bindM_def
      split: option.splits list.splits)
qed

theorem completeDocumentWithToken_precondition_failures_witness:
  "completeDocumentWithToken exampleExternals (exampleCompleteOptions ''t9'')
     (exampleWorld PENDING PARALLEL [exampleRecipient 1 ''t1'' SIGNER NOT_SIGNED SENT] [] None)
   = (Inl PrismaNotFoundError,
      exampleWorld PENDING PARALLEL [exampleRecipient 1 ''t1'' SIGNER NOT_SIGNED SENT] [] None)
   \<and> completeDocumentWithToken exampleExternals (exampleCompleteOptions ''t1'')
       (exampleWorld DRAFT PARALLEL [exampleRecipient 1 ''t1'' SIGNER NOT_SIGNED SENT] [] None)
     = (Inl (Error ''Document env1 must be pending''),
        exampleWorld DRAFT PARALLEL [exampleRecipient 1 ''t1'' SIGNER NOT_SIGNED SENT] [] None)
   \<and> completeDocumentWithToken exampleExternals (exampleCompleteOptions ''t1'')
       (exampleWorld PENDING PARALLEL [exampleRecipient 1 ''t1'' SIGNER SIGNED SENT] [] None)
     = (Inl (Error ''Recipient 1 has already signed''),
        exampleWorld PENDING PARALLEL [exampleRecipient 1 ''t1'' SIGNER SIGNED SENT] [] None)
   \<and> completeDocumentWithToken exampleExternals (exampleCompleteOptions ''t1'')
       (exampleWorld PENDING PARALLEL [exampleRecipient 1 ''t1'' SIGNER REJECTED SENT] [] None)
     = (Inl (AppError UNKNOWN_ERROR ''Recipient has already rejected the document'' (Some 400)),
        exampleWorld PENDING PARALLEL [exampleRecipient 1 ''t1'' SIGNER REJECTED SENT] [] None)
   \<and> completeDocumentWithToken exampleExternals (exampleCompleteOptions ''t2'')
       (exampleWorld PENDING SEQUENTIAL
          [exampleRecipient 1 ''t1'' SIGNER NOT_SIGNED SENT,
           exampleRecipient 2 ''t2'' SIGNER NOT_SIGNED NOT_SENT] [] None)
     = (Inl (Error ''Recipient 2 attempted to complete the document before it was their turn''),
        exampleWorld PENDING SEQUENTIAL
          [exampleRecipient 1 ''t1'' SIGNER NOT_SIGNED SENT,
           exampleRecipient 2 ''t2'' SIGNER NOT_SIGNED NOT_SENT] [] None)
   \<and> completeDocumentWithToken exampleExternals (exampleCompleteOptions ''t1'')
       (exampleWorld PENDING PARALLEL [exampleRecipient 1 ''t1'' SIGNER NOT_SIGNED SENT]
          [exampleField 1 1 False False] None)
     = (Inl (Error ''Recipient 1 has unsigned fields''),
        exampleWorld PENDING PARALLEL [exampleRecipient 1 ''t1'' SIGNER NOT_SIGNED SENT]
          [exampleField 1 1 False False] None)"
  using
    completeDocumentWithToken_precondition_failures
      [of exampleExternals "exampleCompleteOptions ''t9''"
          "exampleWorld PENDING PARALLEL [exampleRecipient 1 ''t1'' SIGNER NOT_SIGNED SENT] [] None"]
    completeDocumentWithToken_precondition_failures
      [of exampleExternals "exampleCompleteOptions ''t1''"
          "exampleWorld DRAFT PARALLEL [exampleRecipient 1 ''t1'' SIGNER NOT_SIGNED SENT] [] None"]
    completeDocumentWithToken_precondition_failures
      [of exampleExternals "exampleCompleteOptions ''t1''"
          "exampleWorld PENDING PARALLEL [exampleRecipient 1 ''t1'' SIGNER SIGNED SENT] [] None"]
    completeDocumentWithToken_precondition_failures
      [of exampleExternals "exampleCompleteOptions ''t1''"
          "exampleWorld PENDING PARALLEL [exampleRecipient 1 ''t1'' SIGNER REJECTED SENT] [] None"]
    completeDocumentWithToken_precondition_failures
      [of exampleExternals "exampleCompleteOptions ''t2''"
          "exampleWorld PENDING SEQUENTIAL
             [exampleRecipient 1 ''t1'' SIGNER NOT_SIGNED SENT,
              exampleRecipient 2 ''t2'' SIGNER NOT_SIGNED NOT_SENT] [] None"]
    completeDocumentWithToken_precondition_failures
      [of exampleExternals "exampleCompleteOptions ''t1''"
          "exampleWorld PENDING PARALLEL [exampleRecipient 1 ''t1'' SIGNER NOT_SIGNED SENT]
             [exampleField 1 1 False False] None"]
  by (simp add: example_defs string_of_nat.simps)

text \<open>
  The claim as stated fails: the error does not identify the failure by its type.  The
  failures for an envelope that is not PENDING, a recipient already SIGNED, a recipient out
  of turn and unsigned required fields are all plain \<open>Error\<close> objects, told apart by
  the message text only, and the one for a REJECTED recipient is an \<open>AppError\<close> with the
  catch-all code UNKNOWN_ERROR.
\<close>

theorem precondition_failures_share_error_type:
  "map_sum errorType id
     (fst (completeDocumentWithToken exampleExternals (exampleCompleteOptions ''t1'')
        (exampleWorld DRAFT PARALLEL [exampleRecipient 1 ''t1'' SIGNER NOT_SIGNED SENT] [] None)))
   = Inl PlainError
   \<and> map_sum errorType id
     (fst (completeDocumentWithToken exampleExternals (exampleCompleteOptions ''t1'')
        (exampleWorld PENDING PARALLEL [exampleRecipient 1 ''t1'' SIGNER SIGNED SENT] [] None)))
   = Inl PlainError
   \<and> map_sum errorType id
     (fst (completeDocumentWithToken exampleExternals (exampleCompleteOptions ''t2'')
        (exampleWorld PENDING SEQUENTIAL
          [exampleRecipient 1 ''t1'' SIGNER NOT_SIGNED SENT,
           exampleRecipient 2 ''t2'' SIGNER NOT_SIGNED NOT_SENT] [] None)))
   = Inl PlainError
   \<and> map_sum errorType id
     (fst (completeDocumentWithToken exampleExternals (exampleCompleteOptions ''t1'')
        (exampleWorld PENDING PARALLEL [exampleRecipient 1 ''t1'' SIGNER NOT_SIGNED SENT]
          [exampleField 1 1 False False] None)))
   = Inl PlainError
   \<and> map_sum errorType id
     (fst (completeDocumentWithToken exampleExternals (exampleCompleteOptions ''t1'')
        (exampleWorld PENDING PARALLEL [exampleRecipient 1 ''t1'' SIGNER REJECTED SENT] [] None)))
   = Inl (AppErrorOf UNKNOWN_ERROR)"
  by code_simp

section \<open>sendDocument when no recipient has anything to do\<close>

lemma keeps_injectFormValues:
  "keeps (onlyItems w0) (forEachM (injectFormValuesIntoDocument ext envelope) items)"
  by (rule keeps_forEachM)
     (auto simp: injectFormValuesIntoDocument_def updateEnvelopeItem_def onlyItems_def
        intro!: keeps_storeWrite)

lemma injectFormValues_unlimited:
  "writesLeft w = None \<Longrightarrow>
   \<exists>w'. forEachM (injectFormValuesIntoDocument ext envelope) items w = (Inr (), w')
         \<and> writesLeft w' = None"
  by (induction items arbitrary: w)
     (auto simp: returnM_def bindM_def injectFormValuesIntoDocument_def
        updateEnvelopeItem_def storeWrite_unlimited)

text \<open>
  Claim C7.  When every recipient of the envelope is role CC or already SIGNED,
  \<open>sendDocument\<close> requests no recipient notification: the only job it can add is the
  seal-document job.  Whenever the call returns it has added exactly that job and has left
  envelopes, recipients, fields, signatures and the audit log as they were; and it does
  return when the envelope has recipients and items, is not completed, and the store
  rejects no write.
\<close>

theorem sendDocument_no_action_requests_seal:
  assumes env: "find (getEnvelopeWhereInput ext (sd_id opts) DOCUMENT (sd_userId opts)
                        (sd_teamId opts)) (envelopes w) = Some envelope"
    and allDone: "list_all (\<lambda>r. r_role r = CC \<or> r_signingStatus r = SIGNED)
                 (filter (\<lambda>r. r_envelopeId r = e_id envelope) (recipients w))"
  shows "(jobs (snd (sendDocument ext opts w)) = jobs w
          \<or> jobs (snd (sendDocument ext opts w)) = jobs w @
              [internal_seal_document (mapSecondaryIdToDocumentId ext (e_secondaryId envelope))
                 (Some (requestMetadata (sd_requestMetadata opts)))])
       \<and> (\<forall>x. fst (sendDocument ext opts w) = Inr x \<longrightarrow>
            jobs (snd (sendDocument ext opts w)) = jobs w @
              [internal_seal_document (mapSecondaryIdToDocumentId ext (e_secondaryId envelope))
                 (Some (requestMetadata (sd_requestMetadata opts)))]
            \<and> envelopes (snd (sendDocument ext opts w)) = envelopes w
            \<and> recipients (snd (sendDocument ext opts w)) = recipients w
            \<and> fieldRows (snd (sendDocument ext opts w)) = fieldRows w
            \<and> signatures (snd (sendDocument ext opts w)) = signatures w
            \<and> auditLogs (snd (sendDocument ext opts w)) = auditLogs w)
       \<and> (filter (\<lambda>r. r_envelopeId r = e_id envelope) (recipients w) \<noteq> []
            \<and> e_status envelope \<noteq> COMPLETED
            \<and> filter (\<lambda>i. ei_envelopeId i = e_id envelope) (envelopeItems w) \<noteq> []
            \<and> writesLeft w = None \<longrightarrow>
          (\<exists>x. fst (sendDocument ext opts w) = Inr x))"
proof -
  let ?inj = "if e_formValues envelope \<noteq> None
              then forEachM (injectFormValuesIntoDocument ext envelope)
                     (filter (\<lambda>i. ei_envelopeId i = e_id envelope) (envelopeItems w))
              else returnM ()"
  let ?seal = "internal_seal_document (mapSecondaryIdToDocumentId ext (e_secondaryId envelope))
                 (Some (requestMetadata (sd_requestMetadata opts)))"
  let ?rest = "\<lambda>_::unit. bindM (triggerJob ?seal)
                 (\<lambda>_. findEnvelopeWithRecipients (\<lambda>e. e_id e = e_id envelope))"
  have run: "sendDocument ext opts w =
      (if filter (\<lambda>r. r_envelopeId r = e_id envelope) (recipients w) = []
       then (Inl (Error ''Document has no recipients''), w)
       else if e_status envelope = COMPLETED
       then (Inl (Error ''Can not send completed document''), w)
       else if filter (\<lambda>i. ei_envelopeId i = e_id envelope) (envelopeItems w) = []
       then (Inl (Error ''Missing envelope items''), w)
       else bindM ?inj ?rest w)"
    using env allDone
    by (simp add: sendDocument_def sendDocumentWith_def sendDocumentSteps_def Let_def
        isDocumentCompleted_def)
  have inj: "onlyItems w (snd (?inj w))"
    using keepsD [OF keeps_injectFormValues, of w w] by (simp add: onlyItems_def returnM_def)
  have envIn: "envelope \<in> set (envelopes w)"
    using env by (auto simp: find_Some_iff)
  have rest: "\<exists>x w2. ?rest () w1 = (Inr x, w2) \<and> jobs w2 = jobs w @ [?seal]
        \<and> envelopes w2 = envelopes w \<and> recipients w2 = recipients w
        \<and> fieldRows w2 = fieldRows w \<and> signatures w2 = signatures w
        \<and> auditLogs w2 = auditLogs w" if o: "onlyItems w w1" for w1
  proof -
    have "find (\<lambda>e. e_id e = e_id envelope) (envelopes w1) \<noteq> None"
      using envIn o by (auto simp: find_None_iff onlyItems_def)
    then show ?thesis
      using o by (auto simp: bindM_def triggerJob_def findEnvelopeWithRecipients_def
          onlyItems_def)
  qed
  have part1: "jobs (snd (sendDocument ext opts w)) = jobs w
          \<or> jobs (snd (sendDocument ext opts w)) = jobs w @ [?seal]"
  proof (cases "?inj w")
    case (Pair r w1)
    then have o: "onlyItems w w1" using inj by simp
    show ?thesis
    proof (cases r)
      case (Inl e)
      then show ?thesis using Pair o by (simp add: run bindM_def onlyItems_def)
    next
      case (Inr u)
      then show ?thesis using Pair rest[OF o] by (auto simp: run bindM_def)
    qed
  qed
  have part2: "\<forall>x. fst (sendDocument ext opts w) = Inr x \<longrightarrow>
            jobs (snd (sendDocument ext opts w)) = jobs w @ [?seal]
            \<and> envelopes (snd (sendDocument ext opts w)) = envelopes w
            \<and> recipients (snd (sendDocument ext opts w)) = recipients w
            \<and> fieldRows (snd (sendDocument ext opts w)) = fieldRows w
            \<and> signatures (snd (sendDocument ext opts w)) = signatures w
            \<and> auditLogs (snd (sendDocument ext opts w)) = auditLogs w"
  proof (cases "?inj w")
    case (Pair r w1)
    then have o: "onlyItems w w1" using inj by simp
    show ?thesis
    proof (cases r)
      case (Inl e)
      then show ?thesis using Pair by (simp add: run bindM_def)
    next
      case (Inr u)
      then show ?thesis using Pair rest[OF o] by (auto simp: run bindM_def)
    qed
  qed
  have part3: "filter (\<lambda>r. r_envelopeId r = e_id envelope) (recipients w) \<noteq> []
            \<and> e_status envelope \<noteq> COMPLETED
            \<and> filter (\<lambda>i. ei_envelopeId i = e_id envelope) (envelopeItems w) \<noteq> []
            \<and> writesLeft w = None \<longrightarrow>
          (\<exists>x. fst (sendDocument ext opts w) = Inr x)"
  proof (intro impI, elim conjE)
    assume a: "filter (\<lambda>r. r_envelopeId r = e_id envelope) (recipients w) \<noteq> []"
      "e_status envelope \<noteq> COMPLETED"
      "filter (\<lambda>i. ei_envelopeId i = e_id envelope) (envelopeItems w) \<noteq> []"
      "writesLeft w = None"
    have "\<exists>w1. ?inj w = (Inr (), w1)"
      using injectFormValues_unlimited[OF a(4), of ext envelope
          "filter (\<lambda>i. ei_envelopeId i = e_id envelope) (envelopeItems w)"]
      by (auto simp: returnM_def)
    then obtain w1 where w1: "?inj w = (Inr (), w1)" ..
    then have "onlyItems w w1" using inj by simp
    from rest[OF this] show "\<exists>x. fst (sendDocument ext opts w) = Inr x"
      using a w1 by (auto simp: run bindM_def)
  qed
  show ?thesis using part1 part2 part3 by blast
qed

theorem sendDocument_no_action_requests_seal_witness:
  "jobs (snd (sendDocument exampleExternals exampleSendOptions
            (exampleWorld PENDING PARALLEL
               [exampleRecipient 1 ''t1'' CC NOT_SIGNED NOT_SENT,
                exampleRecipient 2 ''t2'' SIGNER SIGNED SENT] [] None)))
   = [internal_seal_document 7 (Some \<lparr>ipAddress = Some ''10.0.0.1'', userAgent = None\<rparr>)]"
  using sendDocument_no_action_requests_seal
    [of exampleExternals exampleSendOptions
        "exampleWorld PENDING PARALLEL
           [exampleRecipient 1 ''t1'' CC NOT_SIGNED NOT_SENT,
            exampleRecipient 2 ''t2'' SIGNER SIGNED SENT] [] None"
        "exampleEnvelope PENDING PARALLEL"]
  by (auto simp: example_defs)


section \<open>Invariants through the steps of the two operations\<close>

lemma keeps_if: "keeps I a \<Longrightarrow> keeps I b \<Longrightarrow> keeps I (if c then a else b)"
  by simp

lemma keeps_storeWrite2:
  assumes "\<And>w n. I w \<Longrightarrow> I (w\<lparr>writesLeft := n\<rparr>)" and "\<And>w. I w \<Longrightarrow> I (f w)"
  shows "keeps I (storeWrite f)"
  by (rule keeps_storeWrite) (simp add: assms)

lemma tolerant_createAuditLog: "tolerant I PA \<Longrightarrow> PA a \<Longrightarrow> keeps I (createAuditLog a)"
  unfolding createAuditLog_def by (rule keeps_storeWrite2) (simp_all add: tolerant_def)

lemma tolerant_createSignature: "tolerant I PA \<Longrightarrow> keeps I (createSignature s)"
  unfolding createSignature_def by (rule keeps_storeWrite2) (simp_all add: tolerant_def)

lemma tolerant_updateRecipient: "tolerant I PA \<Longrightarrow> keeps I (updateRecipient rid g)"
  unfolding updateRecipient_def by (rule keeps_storeWrite2) (simp_all add: tolerant_def)

lemma tolerant_updateField: "tolerant I PA \<Longrightarrow> keeps I (updateField fid g)"
  unfolding updateField_def by (rule keeps_storeWrite2) (simp_all add: tolerant_def)

lemma tolerant_markSigned: "tolerant I PA \<Longrightarrow> keeps I (markSigned ext rid)"
  unfolding markSigned_def by (rule tolerant_updateRecipient)

lemma tolerant_transaction: "tolerant I PA \<Longrightarrow> keeps I body \<Longrightarrow> keeps I (transaction body)"
  by (rule keeps_transaction) (auto simp: tolerant_def)

lemma keeps_findAutoSignFields: "keeps I (findAutoSignFields E)"
  by (auto simp: keeps_def findAutoSignFields_def split: option.splits)

lemma keeps_findEnvelopeWithRecipients: "keeps I (findEnvelopeWithRecipients p)"
  by (auto simp: keeps_def findEnvelopeWithRecipients_def split: option.splits)

lemma tolerant_autoSignField:
  assumes "tolerant I PA" and "\<And>a. autoSignEntry E md a \<Longrightarrow> PA a"
  shows "keeps I (autoSignField E md fr)"
  unfolding autoSignField_def
  by (cases fr)
     (auto intro!: keeps_bindM keeps_returnM tolerant_createSignature[OF assms(1)]
        tolerant_updateField[OF assms(1)] tolerant_createAuditLog[OF assms(1)] assms(2)
        simp: autoSignEntry_def)

lemma tolerant_autoCompleted:
  assumes "tolerant I PA" and "\<And>a. autoSignEntry E md a \<Longrightarrow> PA a"
  shows "keeps I (bindM (markSigned ext rid) (\<lambda>_. createAuditLog (autoCompletedAuditLog E md r)))"
  by (auto intro!: keeps_bindM tolerant_markSigned[OF assms(1)]
        tolerant_createAuditLog[OF assms(1)] assms(2)
        simp: autoSignEntry_def autoCompletedAuditLog_def)

lemma tolerant_sendMarkRecipient:
  assumes "tolerant I PA" and "\<And>a. autoSignEntry (e_id envelope) (autoSignMetadataSend rm) a \<Longrightarrow> PA a"
  shows "keeps I (sendMarkRecipient ext envelope rs rm rid)"
  unfolding keeps_def sendMarkRecipient_def Let_def
  using keepsD[OF tolerant_autoCompleted[OF assms]]
  by (auto split: option.splits)

lemma tolerant_completeMarkRecipient:
  assumes "tolerant I PA"
    and "\<And>a. autoSignEntry (e_id envelope) (autoSignMetadataComplete rm) a \<Longrightarrow> PA a"
  shows "keeps I (completeMarkRecipient ext envelope rm rid)"
  unfolding keeps_def completeMarkRecipient_def Let_def
  using keepsD[OF tolerant_autoCompleted[OF assms]]
  by (auto split: option.splits)

lemma tolerant_sendAutoSign:
  assumes "tolerant I PA" and "\<And>a. autoSignEntry (e_id envelope) (autoSignMetadataSend rm) a \<Longrightarrow> PA a"
  shows "keeps I (sendAutoSign ext envelope rs rm)"
  unfolding sendAutoSign_def
  by (intro keeps_bindM keeps_findAutoSignFields keeps_if keeps_returnM keeps_forEachM
        keeps_autoSignFieldLoop tolerant_autoSignField[OF assms] tolerant_sendMarkRecipient[OF assms])

lemma tolerant_completeAutoSign:
  assumes "tolerant I PA"
    and "\<And>a. autoSignEntry (e_id envelope) (autoSignMetadataComplete rm) a \<Longrightarrow> PA a"
  shows "keeps I (completeAutoSign ext envelope rm)"
  unfolding completeAutoSign_def
  by (intro keeps_bindM keeps_findAutoSignFields keeps_returnM keeps_forEachM
        keeps_autoSignFieldLoop tolerant_autoSignField[OF assms]
        tolerant_completeMarkRecipient[OF assms])

lemma tolerant_completeTransactionBody:
  assumes "tolerant I PA"
    and "\<And>a. autoSignEntry (e_id envelope) (autoSignMetadataComplete (o_requestMetadata opts)) a
            \<Longrightarrow> PA a"
    and "PA (completedAuditLog ext opts envelope recipient)"
  shows "keeps I (completeTransactionBody ext opts envelope recipient)"
  unfolding completeTransactionBody_def Let_def
  apply (intro keeps_bindM tolerant_markSigned[OF assms(1)] tolerant_createAuditLog[OF assms(1)]
      assms(3))
  using keepsD[OF tolerant_completeAutoSign[OF assms(1,2)]]
  by (auto simp: keeps_def)

lemma tolerant_completeAccessAuth:
  assumes "tolerant I PA"
    and "\<And>a. a_envelopeId a = e_id envelope \<Longrightarrow> a_requestMetadata a = None \<Longrightarrow> a_metadata a = None
           \<Longrightarrow> a_data a = DOCUMENT_ACCESS_AUTH_2FA_FAILED (r_id recipient) (r_name recipient)
                            (r_email recipient)
               \<or> a_data a = DOCUMENT_ACCESS_AUTH_2FA_VALIDATED (r_id recipient) (r_name recipient)
                               (r_email recipient) \<Longrightarrow> PA a"
  shows "keeps I (completeAccessAuth ext opts envelope recipient)"
  unfolding completeAccessAuth_def
  by (auto intro!: keeps_bindM keeps_returnM keeps_throwM tolerant_createAuditLog[OF assms(1)]
      assms(2) split: option.splits)

section \<open>The two transactions of completeDocumentWithToken\<close>

lemma completeChecks_world: "completeChecks ext opts w = (r, w') \<Longrightarrow> w' = w"
  by (auto simp: completeChecks_def split: option.splits list.splits if_splits)

lemma completeAccessAuth_store:
  "completeAccessAuth ext opts envelope recipient w = (r, w') \<Longrightarrow>
     store w' = store w
     \<or> (\<exists>a. twoFactorEntry a \<and> store w' = store (w\<lparr>auditLogs := auditLogs w @ [a]\<rparr>))"
  unfolding completeAccessAuth_def createAuditLog_def
  by (auto simp: storeWrite_def bindM_def throwM_def returnM_def store_def twoFactorEntry_def
      split: option.splits nat.splits if_splits)

lemma transaction_Inl: "transaction body w = (Inl e, w') \<Longrightarrow> store w' = store w"
  by (auto simp: transaction_def rollback_def store_def split: prod.splits sum.splits)

lemma transaction_Inr: "transaction body w = (Inr x, w') \<Longrightarrow> body w = (Inr x, w')"
  by (auto simp: transaction_def split: prod.splits sum.splits)

lemma completeAdvance_Inl:
  "completeAdvance ext opts envelope recipient w = (Inl e, w') \<Longrightarrow> store w' = store w"
  unfolding completeAdvance_def Let_def
  by (auto simp: bindM_def sendPendingEmail_def returnM_def store_def
      dest!: transaction_Inl split: list.splits if_splits)

lemma completeFinish_store:
  "completeFinish ext opts envelope w = (r, w') \<Longrightarrow> store w' = store w"
  unfolding completeFinish_def
  by (auto simp: bindM_def triggerJob_def triggerWebhook_def findEnvelopeWithRecipients_def
      store_def split: option.splits if_splits)


text \<open>
  Claim C3, as amended.  \<open>completeDocumentWithToken\<close> has two transactions.  Marking the
  recipient SIGNED, its RECIPIENT_COMPLETED audit entry and the auto-sign resolution are one
  transaction; the advance to the next recipient is a second one, run after the first has
  committed.  Step by step: the checks write nothing; the access authentication writes at
  most one audit entry; a failure inside the first transaction ends the call with the
  store as it was before that transaction; once the first transaction has returned, its
  whole body has run, and a failure in the advance (the second transaction) ends the call
  with the store exactly as the first transaction left it, so the completion stays
  committed and nothing of the advance is there; when the advance returns, what follows
  writes nothing to the store.
\<close>

theorem completeDocumentWithToken_two_transactions:
  "snd (completeChecks ext opts w) = w
   \<and> (\<forall>e. completeChecks ext opts w = (Inl e, w) \<longrightarrow>
         completeDocumentWithToken ext opts w = (Inl e, w))
   \<and> (\<forall>envelope recipient.
         completeChecks ext opts w = (Inr (envelope, recipient), w) \<longrightarrow>
         (\<forall>e wa. completeAccessAuth ext opts envelope recipient w = (Inl e, wa) \<longrightarrow>
            completeDocumentWithToken ext opts w = (Inl e, wa)
            \<and> (store wa = store w
                \<or> (\<exists>a. twoFactorEntry a
                       \<and> store wa = store (w\<lparr>auditLogs := auditLogs w @ [a]\<rparr>))))
         \<and> (\<forall>wa. completeAccessAuth ext opts envelope recipient w = (Inr (), wa) \<longrightarrow>
              (store wa = store w
                \<or> (\<exists>a. twoFactorEntry a
                       \<and> store wa = store (w\<lparr>auditLogs := auditLogs w @ [a]\<rparr>)))
              \<and> (\<forall>e w1. transaction (completeTransactionBody ext opts envelope recipient) wa
                           = (Inl e, w1) \<longrightarrow>
                    completeDocumentWithToken ext opts w = (Inl e, w1) \<and> store w1 = store wa)
              \<and> (\<forall>w1. transaction (completeTransactionBody ext opts envelope recipient) wa
                         = (Inr (), w1) \<longrightarrow>
                    completeTransactionBody ext opts envelope recipient wa = (Inr (), w1)
                    \<and> (\<forall>e w2.
                          completeAdvance ext opts envelope recipient
                            (w1\<lparr>jobs := jobs w1 @ [send_recipient_signed_email
                                   (mapSecondaryIdToDocumentId ext (e_secondaryId envelope))
                                   (r_id recipient)]\<rparr>) = (Inl e, w2) \<longrightarrow>
                          completeDocumentWithToken ext opts w = (Inl e, w2)
                          \<and> store w2 = store w1)
                    \<and> (\<forall>w2.
                          completeAdvance ext opts envelope recipient
                            (w1\<lparr>jobs := jobs w1 @ [send_recipient_signed_email
                                   (mapSecondaryIdToDocumentId ext (e_secondaryId envelope))
                                   (r_id recipient)]\<rparr>) = (Inr (), w2) \<longrightarrow>
                          completeDocumentWithToken ext opts w
                            = completeFinish ext opts envelope w2
                          \<and> store (snd (completeDocumentWithToken ext opts w)) = store w2))))"
proof (intro conjI allI impI)
  show "snd (completeChecks ext opts w) = w"
    using completeChecks_world[of ext opts w] by (metis prod.collapse)
next
  fix e assume "completeChecks ext opts w = (Inl e, w)"
  then show "completeDocumentWithToken ext opts w = (Inl e, w)"
    by (simp add: completeDocumentWithToken_def bindM_def)
next
  fix envelope recipient e wa
  assume ch: "completeChecks ext opts w = (Inr (envelope, recipient), w)"
    and au: "completeAccessAuth ext opts envelope recipient w = (Inl e, wa)"
  show "completeDocumentWithToken ext opts w = (Inl e, wa)"
    using ch au by (simp add: completeDocumentWithToken_def bindM_def)
  show "store wa = store w
        \<or> (\<exists>a. twoFactorEntry a \<and> store wa = store (w\<lparr>auditLogs := auditLogs w @ [a]\<rparr>))"
    using au by (rule completeAccessAuth_store)
next
  fix envelope recipient wa
  assume ch: "completeChecks ext opts w = (Inr (envelope, recipient), w)"
    and au: "completeAccessAuth ext opts envelope recipient w = (Inr (), wa)"
  show "store wa = store w
        \<or> (\<exists>a. twoFactorEntry a \<and> store wa = store (w\<lparr>auditLogs := auditLogs w @ [a]\<rparr>))"
    using au by (rule completeAccessAuth_store)
next
  fix envelope recipient wa e w1
  assume ch: "completeChecks ext opts w = (Inr (envelope, recipient), w)"
    and au: "completeAccessAuth ext opts envelope recipient w = (Inr (), wa)"
    and tx: "transaction (completeTransactionBody ext opts envelope recipient) wa = (Inl e, w1)"
  show "completeDocumentWithToken ext opts w = (Inl e, w1)"
    using ch au tx by (simp add: completeDocumentWithToken_def bindM_def)
  show "store w1 = store wa"
    using tx by (rule transaction_Inl)
next
  fix envelope recipient wa w1
  assume tx: "transaction (completeTransactionBody ext opts envelope recipient) wa = (Inr (), w1)"
  then show "completeTransactionBody ext opts envelope recipient wa = (Inr (), w1)"
    by (rule transaction_Inr)
next
  fix envelope recipient wa w1 e w2
  assume ch: "completeChecks ext opts w = (Inr (envelope, recipient), w)"
    and au: "completeAccessAuth ext opts envelope recipient w = (Inr (), wa)"
    and tx: "transaction (completeTransactionBody ext opts envelope recipient) wa = (Inr (), w1)"
    and ad: "completeAdvance ext opts envelope recipient
               (w1\<lparr>jobs := jobs w1 @ [send_recipient_signed_email
                      (mapSecondaryIdToDocumentId ext (e_secondaryId envelope))
                      (r_id recipient)]\<rparr>) = (Inl e, w2)"
  show "completeDocumentWithToken ext opts w = (Inl e, w2)"
    using ch au tx ad by (simp add: completeDocumentWithToken_def bindM_def triggerJob_def)
  have "store w2 = store (w1\<lparr>jobs := jobs w1 @ [send_recipient_signed_email
                      (mapSecondaryIdToDocumentId ext (e_secondaryId envelope))
                      (r_id recipient)]\<rparr>)"
    using ad by (rule completeAdvance_Inl)
  then show "store w2 = store w1" by (simp add: store_def)
next
  fix envelope recipient wa w1 w2
  assume ch: "completeChecks ext opts w = (Inr (envelope, recipient), w)"
    and au: "completeAccessAuth ext opts envelope recipient w = (Inr (), wa)"
    and tx: "transaction (completeTransactionBody ext opts envelope recipient) wa = (Inr (), w1)"
    and ad: "completeAdvance ext opts envelope recipient
               (w1\<lparr>jobs := jobs w1 @ [send_recipient_signed_email
                      (mapSecondaryIdToDocumentId ext (e_secondaryId envelope))
                      (r_id recipient)]\<rparr>) = (Inr (), w2)"
  show run: "completeDocumentWithToken ext opts w = completeFinish ext opts envelope w2"
    using ch au tx ad by (simp add: completeDocumentWithToken_def bindM_def triggerJob_def)
  show "store (snd (completeDocumentWithToken ext opts w)) = store w2"
    unfolding run using completeFinish_store[of ext opts envelope w2] by (metis prod.collapse)
qed

theorem completeDocumentWithToken_two_transactions_witness:
  "completeChecks exampleExternals (exampleCompleteOptions ''t1'')
     (exampleWorld PENDING SEQUENTIAL
        [exampleRecipient 1 ''t1'' SIGNER NOT_SIGNED SENT,
         exampleRecipient 2 ''t2'' SIGNER NOT_SIGNED NOT_SENT] [] (Some 2))
   = (Inr (exampleEnvelope PENDING SEQUENTIAL, exampleRecipient 1 ''t1'' SIGNER NOT_SIGNED SENT),
      exampleWorld PENDING SEQUENTIAL
        [exampleRecipient 1 ''t1'' SIGNER NOT_SIGNED SENT,
         exampleRecipient 2 ''t2'' SIGNER NOT_SIGNED NOT_SENT] [] (Some 2))
   \<and> fst (completeDocumentWithToken exampleExternals (exampleCompleteOptions ''t1'')
        (exampleWorld PENDING SEQUENTIAL
           [exampleRecipient 1 ''t1'' SIGNER NOT_SIGNED SENT,
            exampleRecipient 2 ''t2'' SIGNER NOT_SIGNED NOT_SENT] [] (Some 2)))
     = Inl PrismaStoreError
   \<and> store (snd (completeDocumentWithToken exampleExternals (exampleCompleteOptions ''t1'')
        (exampleWorld PENDING SEQUENTIAL
           [exampleRecipient 1 ''t1'' SIGNER NOT_SIGNED SENT,
            exampleRecipient 2 ''t2'' SIGNER NOT_SIGNED NOT_SENT] [] (Some 2))))
     = store (snd (transaction
         (completeTransactionBody exampleExternals (exampleCompleteOptions ''t1'')
            (exampleEnvelope PENDING SEQUENTIAL) (exampleRecipient 1 ''t1'' SIGNER NOT_SIGNED SENT))
         (exampleWorld PENDING SEQUENTIAL
           [exampleRecipient 1 ''t1'' SIGNER NOT_SIGNED SENT,
            exampleRecipient 2 ''t2'' SIGNER NOT_SIGNED NOT_SENT] [] (Some 2))))
   \<and> map (\<lambda>r. (r_signingStatus r, r_sendStatus r))
       (recipients (snd (transaction
         (completeTransactionBody exampleExternals (exampleCompleteOptions ''t1'')
            (exampleEnvelope PENDING SEQUENTIAL) (exampleRecipient 1 ''t1'' SIGNER NOT_SIGNED SENT))
         (exampleWorld PENDING SEQUENTIAL
           [exampleRecipient 1 ''t1'' SIGNER NOT_SIGNED SENT,
            exampleRecipient 2 ''t2'' SIGNER NOT_SIGNED NOT_SENT] [] (Some 2)))))
     = [(SIGNED, SENT), (NOT_SIGNED, NOT_SENT)]"
proof -
  let ?W = "exampleWorld PENDING SEQUENTIAL
           [exampleRecipient 1 ''t1'' SIGNER NOT_SIGNED SENT,
            exampleRecipient 2 ''t2'' SIGNER NOT_SIGNED NOT_SENT] [] (Some 2)"
  let ?E = "exampleEnvelope PENDING SEQUENTIAL"
  let ?R = "exampleRecipient 1 ''t1'' SIGNER NOT_SIGNED SENT"
  let ?X = exampleExternals
  let ?O = "exampleCompleteOptions ''t1''"
  let ?w1 = "snd (transaction (completeTransactionBody ?X ?O ?E ?R) ?W)"
  let ?wj = "?w1\<lparr>jobs := jobs ?w1 @ [send_recipient_signed_email
               (mapSecondaryIdToDocumentId ?X (e_secondaryId ?E)) (r_id ?R)]\<rparr>"
  let ?w2 = "snd (completeAdvance ?X ?O ?E ?R ?wj)"
  note t = completeDocumentWithToken_two_transactions[where ext = ?X and opts = ?O and w = ?W]
  have ch: "completeChecks ?X ?O ?W = (Inr (?E, ?R), ?W)"
    by code_simp
  have au: "completeAccessAuth ?X ?O ?E ?R ?W = (Inr (), ?W)"
    by code_simp
  have "fst (transaction (completeTransactionBody ?X ?O ?E ?R) ?W) = Inr ()"
    by code_simp
  then have tx: "transaction (completeTransactionBody ?X ?O ?E ?R) ?W = (Inr (), ?w1)"
    by (metis prod.collapse)
  have "fst (completeAdvance ?X ?O ?E ?R ?wj) = Inl PrismaStoreError"
    by code_simp
  then have ad: "completeAdvance ?X ?O ?E ?R ?wj = (Inl PrismaStoreError, ?w2)"
    by (metis prod.collapse)
  have run: "completeDocumentWithToken ?X ?O ?W = (Inl PrismaStoreError, ?w2)
             \<and> store ?w2 = store ?w1"
    using t ch au tx ad by blast
  have f: "fst (completeDocumentWithToken ?X ?O ?W) = Inl PrismaStoreError"
    using run by simp
  have s: "store (snd (completeDocumentWithToken ?X ?O ?W)) = store ?w1"
    using run by simp
  have r: "map (\<lambda>r. (r_signingStatus r, r_sendStatus r)) (recipients ?w1)
           = [(SIGNED, SENT), (NOT_SIGNED, NOT_SENT)]"
    by code_simp
  show ?thesis by (intro conjI ch f s r)
qed

text \<open>
  The claim as stated fails: with a store that rejects the third write (the update of the
  next recipient, in the second transaction) the call fails, and the first recipient stays
  SIGNED while the second was not advanced.
\<close>

theorem completeDocumentWithToken_advance_failure_keeps_signed:
  "fst (completeDocumentWithToken exampleExternals (exampleCompleteOptions ''t1'')
          (exampleWorld PENDING SEQUENTIAL
             [exampleRecipient 1 ''t1'' SIGNER NOT_SIGNED SENT,
              exampleRecipient 2 ''t2'' SIGNER NOT_SIGNED NOT_SENT] [] (Some 2)))
   = Inl PrismaStoreError
   \<and> map (\<lambda>r. (r_signingStatus r, r_sendStatus r))
       (recipients (snd (completeDocumentWithToken exampleExternals (exampleCompleteOptions ''t1'')
          (exampleWorld PENDING SEQUENTIAL
             [exampleRecipient 1 ''t1'' SIGNER NOT_SIGNED SENT,
              exampleRecipient 2 ''t2'' SIGNER NOT_SIGNED NOT_SENT] [] (Some 2)))))
     = [(SIGNED, SENT), (NOT_SIGNED, NOT_SENT)]
   \<and> length (auditLogs (snd (completeDocumentWithToken exampleExternals
          (exampleCompleteOptions ''t1'')
          (exampleWorld PENDING SEQUENTIAL
             [exampleRecipient 1 ''t1'' SIGNER NOT_SIGNED SENT,
              exampleRecipient 2 ''t2'' SIGNER NOT_SIGNED NOT_SENT] [] (Some 2))))) = 1"
  by code_simp

section \<open>Requests of the seal-document job\<close>

lemma grows_refl: "grows P xs xs"
  by (simp add: grows_def)

lemma grows_snoc: "grows P xs ys \<Longrightarrow> P y \<Longrightarrow> grows P xs (ys @ [y])"
  by (auto simp: grows_def)

lemma tolerant_jobs_grow: "tolerant (\<lambda>w. grows P js (jobs w)) (\<lambda>_. True)"
  by (simp add: tolerant_def rollback_def)

lemma tolerant_sameEnvelopes: "tolerant (sameEnvelopes w0) (\<lambda>_. True)"
  by (simp add: tolerant_def rollback_def sameEnvelopes_def)

lemma keeps_triggerJob_grow: "P j \<Longrightarrow> keeps (\<lambda>w. grows P js (jobs w)) (triggerJob j)"
  by (simp add: keeps_def triggerJob_def grows_snoc)

lemma keeps_sendPendingEmail_jobs: "keeps (\<lambda>w. grows P js (jobs w)) (sendPendingEmail i r)"
  by (simp add: keeps_def sendPendingEmail_def)

lemma tolerant_advanceTransactionBody:
  assumes "tolerant I (\<lambda>_. True)"
    and "keeps I (triggerJob (send_signing_requested_email (e_userId envelope)
                 (mapSecondaryIdToDocumentId ext (e_secondaryId envelope))
                 (r_id nextRecipient) (o_requestMetadata opts)))"
  shows "keeps I (advanceTransactionBody ext opts envelope recipient nextRecipient)"
  unfolding advanceTransactionBody_def
  by (auto intro!: keeps_bindM keeps_returnM tolerant_createAuditLog[OF assms(1)]
      tolerant_updateRecipient[OF assms(1)] assms(2) split: option.splits)

lemma tolerant_completeAdvance:
  assumes "tolerant I (\<lambda>_. True)"
    and "\<And>u d r m. keeps I (triggerJob (send_signing_requested_email u d r m))"
    and "\<And>i r. keeps I (sendPendingEmail i r)"
  shows "keeps I (completeAdvance ext opts envelope recipient)"
proof (rule keepsI)
  fix w assume w: "I w"
  have "keeps I (bindM (sendPendingEmail (o_id opts) (r_id recipient))
               (\<lambda>_. if envelopeSigningOrder envelope = Some SEQUENTIAL
                     then transaction
                            (advanceTransactionBody ext opts envelope recipient nextRecipient)
                     else returnM ()))" for nextRecipient
    by (intro keeps_bindM keeps_if keeps_returnM assms(3) tolerant_transaction[OF assms(1)]
        tolerant_advanceTransactionBody[OF assms(1)] assms(2))
  from keepsD[OF this w] show "I (snd (completeAdvance ext opts envelope recipient w))"
    using w by (auto simp: completeAdvance_def Let_def split: list.splits)
qed

lemma bindM_keeps_then:
  assumes "keeps I m" and "I w"
    and "\<And>x w1. I w1 \<Longrightarrow> Q (snd (f x w1))" and "\<And>w1. I w1 \<Longrightarrow> Q w1"
  shows "Q (snd (bindM m f w))"
proof (cases "m w")
  case (Pair r w1)
  have "I w1" using keepsD[OF assms(1,2)] Pair by simp
  then show ?thesis using Pair assms(3,4) by (cases r) (auto simp: bindM_def)
qed

lemma haveAllRecipientsSigned_cong:
  "envelopes w' = envelopes w \<Longrightarrow> recipients w' = recipients w \<Longrightarrow>
     haveAllRecipientsSigned E w' = haveAllRecipientsSigned E w"
  by (simp add: haveAllRecipientsSigned_def)

lemma completeFinish_jobs:
  "completeFinish ext opts envelope w = (r, w') \<Longrightarrow>
     jobs w' = jobs w @ (if haveAllRecipientsSigned (e_id envelope) w
                         then [internal_seal_document
                                 (mapSecondaryIdToDocumentId ext (e_secondaryId envelope))
                                 (o_requestMetadata opts)]
                         else [])
     \<and> envelopes w' = envelopes w \<and> recipients w' = recipients w"
  unfolding completeFinish_def
  by (auto simp: bindM_def triggerJob_def triggerWebhook_def findEnvelopeWithRecipients_def
      split: option.splits if_splits)

lemma completeSteps_jobs:
  "keeps (\<lambda>w. grows (\<lambda>j. \<not> isSealRequest j) js (jobs w))
     (bindM (completeAccessAuth ext opts envelope recipient)
        (\<lambda>_. bindM (transaction (completeTransactionBody ext opts envelope recipient))
        (\<lambda>_. bindM (triggerJob (send_recipient_signed_email d (r_id recipient)))
        (\<lambda>_. completeAdvance ext opts envelope recipient))))"
  by (intro keeps_bindM tolerant_completeAccessAuth[OF tolerant_jobs_grow]
      tolerant_transaction[OF tolerant_jobs_grow]
      tolerant_completeTransactionBody[OF tolerant_jobs_grow]
      tolerant_completeAdvance[OF tolerant_jobs_grow]
      keeps_triggerJob_grow keeps_sendPendingEmail_jobs) simp_all

lemma bindM_assoc: "bindM (bindM m f) g = bindM m (\<lambda>x. bindM (f x) g)"
  by (rule ext) (auto simp: bindM_def split: prod.splits sum.splits)

lemma completeDocumentWithToken_steps:
  "completeDocumentWithToken ext opts =
     bindM (completeChecks ext opts)
       (\<lambda>(envelope, recipient).
          bindM (bindM (completeAccessAuth ext opts envelope recipient)
                   (\<lambda>_. bindM (transaction (completeTransactionBody ext opts envelope recipient))
                   (\<lambda>_. bindM (triggerJob (send_recipient_signed_email
                                  (mapSecondaryIdToDocumentId ext (e_secondaryId envelope))
                                  (r_id recipient)))
                   (\<lambda>_. completeAdvance ext opts envelope recipient))))
            (\<lambda>_. completeFinish ext opts envelope))"
  by (simp add: completeDocumentWithToken_def bindM_assoc)


lemma completeFinish_seal_count:
  assumes "grows (\<lambda>j. \<not> isSealRequest j) js (jobs w2)"
    and "completeFinish ext opts envelope w2 = (r, w')"
  shows "\<exists>new. jobs w' = js @ new
       \<and> length (filter isSealRequest new) =
           (if haveAllRecipientsSigned (e_id envelope) w' then 1 else 0)"
proof -
  from assms(1) obtain new where new: "jobs w2 = js @ new" "list_all (\<lambda>j. \<not> isSealRequest j) new"
    by (auto simp: grows_def)
  have nil: "filter isSealRequest new = []"
    using new(2) by (simp add: filter_empty_conv list_all_iff)
  note f = completeFinish_jobs[OF assms(2)]
  have h: "haveAllRecipientsSigned (e_id envelope) w' = haveAllRecipientsSigned (e_id envelope) w2"
    using f by (intro haveAllRecipientsSigned_cong) simp_all
  show ?thesis
  proof (cases "haveAllRecipientsSigned (e_id envelope) w2")
    case True
    then have "jobs w' = js @ (new @ [internal_seal_document
                                 (mapSecondaryIdToDocumentId ext (e_secondaryId envelope))
                                 (o_requestMetadata opts)])"
      using f new(1) by simp
    then show ?thesis using True h nil by (intro exI conjI) (assumption, simp)
  next
    case False
    then have "jobs w' = js @ new" using f new(1) by simp
    then show ?thesis using False h nil by (intro exI conjI) (assumption, simp)
  qed
qed



lemma completeDocumentWithToken_signed_again:
  assumes "findEnvelopeByToken ext opts w = Some envelope"
    and "recipientsWithToken envelope (o_token opts) w = recipient # rest"
    and "r_signingStatus recipient = SIGNED"
  shows "\<exists>e. completeDocumentWithToken ext opts w = (Inl e, w)"
proof -
  have "\<exists>e. completeChecks ext opts w = (Inl e, w)"
    using assms by (simp add: completeChecks_def)
  then show ?thesis by (auto simp: completeDocumentWithToken_def bindM_def)
qed



lemma completeDocumentWithToken_after_checks:
  assumes "completeChecks ext opts w = (Inr (envelope, recipient), w)"
  shows "completeDocumentWithToken ext opts w =
     bindM (bindM (completeAccessAuth ext opts envelope recipient)
                   (\<lambda>_. bindM (transaction (completeTransactionBody ext opts envelope recipient))
                   (\<lambda>_. bindM (triggerJob (send_recipient_signed_email
                                  (mapSecondaryIdToDocumentId ext (e_secondaryId envelope))
                                  (r_id recipient)))
                   (\<lambda>_. completeAdvance ext opts envelope recipient))))
       (\<lambda>_. completeFinish ext opts envelope) w"
proof -
  have "completeDocumentWithToken ext opts w =
      bindM (completeAccessAuth ext opts envelope recipient)
       (\<lambda>_. bindM (transaction (completeTransactionBody ext opts envelope recipient))
       (\<lambda>_. bindM (triggerJob
                     (send_recipient_signed_email
                        (mapSecondaryIdToDocumentId ext (e_secondaryId envelope))
                        (r_id recipient)))
       (\<lambda>_. bindM (completeAdvance ext opts envelope recipient)
       (\<lambda>_. completeFinish ext opts envelope)))) w"
    unfolding completeDocumentWithToken_def
    by (subst bindM_def) (simp add: assms)
  then show ?thesis by (simp only: bindM_assoc)
qed

lemma completeChecks_cases:
  obtains (fail) e where "completeChecks ext opts w = (Inl e, w)"
  | (pass) envelope recipient where "completeChecks ext opts w = (Inr (envelope, recipient), w)"
proof (cases "completeChecks ext opts w")
  case (Pair r0 w0)
  then have w0: "w0 = w" by (rule completeChecks_world)
  show ?thesis
  proof (cases r0)
    case (Inl e0)
    then show ?thesis using Pair w0 fail by simp
  next
    case (Inr er)
    then show ?thesis using Pair w0 pass by (cases er) simp
  qed
qed

lemma completeChecks_fail:
  "completeChecks ext opts w = (Inl e, w) \<Longrightarrow> completeDocumentWithToken ext opts w = (Inl e, w)"
  unfolding completeDocumentWithToken_def by (subst bindM_def) simp

lemma seal_at_most_once:
  "\<exists>new. jobs (snd (completeDocumentWithToken ext opts w)) = jobs w @ new
          \<and> length (filter isSealRequest new) \<le> 1"
proof (cases rule: completeChecks_cases[of ext opts w])
  case (fail e)
  then show ?thesis by (simp add: completeChecks_fail)
next
  case (pass envelope recipient)
  let ?I = "\<lambda>w' :: World. grows (\<lambda>j. \<not> isSealRequest j) (jobs w) (jobs w')"
  let ?Q = "\<lambda>w' :: World. \<exists>new. jobs w' = jobs w @ new \<and> length (filter isSealRequest new) \<le> 1"
  have I0: "?I w" by (rule grows_refl)
  have "?Q (snd (bindM (bindM (completeAccessAuth ext opts envelope recipient)
                   (\<lambda>_. bindM (transaction (completeTransactionBody ext opts envelope recipient))
                   (\<lambda>_. bindM (triggerJob (send_recipient_signed_email
                                  (mapSecondaryIdToDocumentId ext (e_secondaryId envelope))
                                  (r_id recipient)))
                   (\<lambda>_. completeAdvance ext opts envelope recipient))))
       (\<lambda>_. completeFinish ext opts envelope) w))"
  proof (rule bindM_keeps_then[where I = ?I, OF completeSteps_jobs I0])
    fix x :: unit and w1 assume i1: "?I w1"
    have "completeFinish ext opts envelope w1 =
            (fst (completeFinish ext opts envelope w1), snd (completeFinish ext opts envelope w1))"
      by simp
    from completeFinish_seal_count[OF i1 this]
    obtain new where "jobs (snd (completeFinish ext opts envelope w1)) = jobs w @ new"
      "length (filter isSealRequest new) =
         (if haveAllRecipientsSigned (e_id envelope) (snd (completeFinish ext opts envelope w1))
          then 1 else 0)"
      by auto
    then show "?Q (snd (completeFinish ext opts envelope w1))"
      by (intro exI[of _ new]) simp
  next
    fix w1 assume "?I w1"
    then obtain new where "jobs w1 = jobs w @ new" "list_all (\<lambda>j. \<not> isSealRequest j) new"
      by (auto simp: grows_def)
    then show "?Q w1"
      by (intro exI[of _ new]) (simp add: filter_empty_conv list_all_iff)
  qed
  then show ?thesis by (simp only: completeDocumentWithToken_after_checks[OF pass])
qed

lemma seal_exactly_on_success:
  assumes "completeDocumentWithToken ext opts w = (Inr u, w')"
  shows "\<exists>envelope recipient new.
           completeChecks ext opts w = (Inr (envelope, recipient), w)
           \<and> jobs w' = jobs w @ new
           \<and> length (filter isSealRequest new) =
               (if haveAllRecipientsSigned (e_id envelope) w' then 1 else 0)"
proof (cases rule: completeChecks_cases[of ext opts w])
  case (fail e)
  then show ?thesis using assms by (simp add: completeChecks_fail)
next
  case (pass envelope recipient)
  let ?I = "\<lambda>w' :: World. grows (\<lambda>j. \<not> isSealRequest j) (jobs w) (jobs w')"
  have I0: "?I w" by (rule grows_refl)
  from assms obtain x w2 where
    st: "bindM (completeAccessAuth ext opts envelope recipient)
                   (\<lambda>_. bindM (transaction (completeTransactionBody ext opts envelope recipient))
                   (\<lambda>_. bindM (triggerJob (send_recipient_signed_email
                                  (mapSecondaryIdToDocumentId ext (e_secondaryId envelope))
                                  (r_id recipient)))
                   (\<lambda>_. completeAdvance ext opts envelope recipient))) w = (Inr x, w2)"
    and fi: "completeFinish ext opts envelope w2 = (Inr u, w')"
    unfolding completeDocumentWithToken_after_checks[OF pass] bindM_Inr_iff[of _ _ w u w']
    by blast
  have "?I w2" using keepsD[OF completeSteps_jobs I0] st by (metis snd_conv)
  from completeFinish_seal_count[OF this fi] show ?thesis using pass by blast
qed


text \<open>
  Claim C4, as amended.  One call of \<open>completeDocumentWithToken\<close> requests the seal-document
  job at most once; a call that returns has requested it exactly once when it leaves every
  recipient of the envelope SIGNED or CC, and not at all otherwise; a repeated attempt by a
  recipient who is already SIGNED fails and changes nothing, so it requests no job.
\<close>

theorem seal_document_requested_once_per_call:
  "(\<exists>new. jobs (snd (completeDocumentWithToken ext opts w)) = jobs w @ new
          \<and> length (filter isSealRequest new) \<le> 1)
   \<and> (\<forall>u w'. completeDocumentWithToken ext opts w = (Inr u, w') \<longrightarrow>
        (\<exists>envelope recipient new.
           completeChecks ext opts w = (Inr (envelope, recipient), w)
           \<and> jobs w' = jobs w @ new
           \<and> length (filter isSealRequest new) =
               (if haveAllRecipientsSigned (e_id envelope) w' then 1 else 0)))
   \<and> (\<forall>envelope recipient rest.
        findEnvelopeByToken ext opts w = Some envelope
        \<and> recipientsWithToken envelope (o_token opts) w = recipient # rest
        \<and> r_signingStatus recipient = SIGNED \<longrightarrow>
        (\<exists>e. completeDocumentWithToken ext opts w = (Inl e, w)))"
  using seal_at_most_once seal_exactly_on_success completeDocumentWithToken_signed_again
  by blast


theorem seal_document_requested_once_per_call_witness:
  "\<exists>envelope recipient new.
     completeChecks exampleExternals (exampleCompleteOptions ''t2'')
       (exampleWorld PENDING PARALLEL
          [exampleRecipient 1 ''t1'' CC NOT_SIGNED NOT_SENT,
           exampleRecipient 2 ''t2'' SIGNER NOT_SIGNED SENT] [] None)
     = (Inr (envelope, recipient),
        exampleWorld PENDING PARALLEL
          [exampleRecipient 1 ''t1'' CC NOT_SIGNED NOT_SENT,
           exampleRecipient 2 ''t2'' SIGNER NOT_SIGNED SENT] [] None)
     \<and> jobs (snd (completeDocumentWithToken exampleExternals (exampleCompleteOptions ''t2'')
          (exampleWorld PENDING PARALLEL
             [exampleRecipient 1 ''t1'' CC NOT_SIGNED NOT_SENT,
              exampleRecipient 2 ''t2'' SIGNER NOT_SIGNED SENT] [] None)))
       = jobs (exampleWorld PENDING PARALLEL
                 [exampleRecipient 1 ''t1'' CC NOT_SIGNED NOT_SENT,
                  exampleRecipient 2 ''t2'' SIGNER NOT_SIGNED SENT] [] None) @ new
     \<and> length (filter isSealRequest new) =
         (if haveAllRecipientsSigned (e_id envelope)
               (snd (completeDocumentWithToken exampleExternals (exampleCompleteOptions ''t2'')
                  (exampleWorld PENDING PARALLEL
                     [exampleRecipient 1 ''t1'' CC NOT_SIGNED NOT_SENT,
                      exampleRecipient 2 ''t2'' SIGNER NOT_SIGNED SENT] [] None)))
          then 1 else 0)"
proof -
  let ?w = "exampleWorld PENDING PARALLEL
              [exampleRecipient 1 ''t1'' CC NOT_SIGNED NOT_SENT,
               exampleRecipient 2 ''t2'' SIGNER NOT_SIGNED SENT] [] None"
  have "fst (completeDocumentWithToken exampleExternals (exampleCompleteOptions ''t2'') ?w)
        = Inr ()"
    by code_simp
  then have run: "completeDocumentWithToken exampleExternals (exampleCompleteOptions ''t2'') ?w
      = (Inr (), snd (completeDocumentWithToken exampleExternals
                        (exampleCompleteOptions ''t2'') ?w))"
    by (metis prod.collapse)
  show ?thesis
    using seal_document_requested_once_per_call
      [of exampleExternals "exampleCompleteOptions ''t2''" ?w] run
    by blast
qed

text \<open>
  The claim as stated fails: nothing records that the seal job was requested.  After the
  completion that requests it, the envelope is still PENDING, and a re-send of the envelope
  requests the seal job a second time.
\<close>

theorem sendDocument_requests_seal_again:
  "jobs (snd (sendDocument exampleExternals exampleSendOptions
     (snd (completeDocumentWithToken exampleExternals (exampleCompleteOptions ''t2'')
        (exampleWorld PENDING PARALLEL
           [exampleRecipient 1 ''t1'' CC NOT_SIGNED NOT_SENT,
            exampleRecipient 2 ''t2'' SIGNER NOT_SIGNED SENT] [] None)))))
   = [send_recipient_signed_email 7 2,
      internal_seal_document 7 (Some \<lparr>ipAddress = Some ''10.0.0.1'', userAgent = None\<rparr>),
      internal_seal_document 7 (Some \<lparr>ipAddress = Some ''10.0.0.1'', userAgent = None\<rparr>)]"
  by code_simp

section \<open>Terminal signing status\<close>

text \<open>
  Claim C5 at a failing input.  Recipient 2 has REJECTED and owns an auto-sign field not
  yet inserted; recipient 1 completes.  The auto-sign resolution inserts the field of
  recipient 2 and marks recipient 2 SIGNED: the check before marking looks for SIGNED only.
\<close>

theorem autoSign_marks_rejected_recipient_signed:
  "map r_signingStatus
     (recipients (exampleWorld PENDING PARALLEL
        [exampleRecipient 1 ''t1'' SIGNER NOT_SIGNED SENT,
         exampleRecipient 2 ''t2'' SIGNER REJECTED SENT]
        [exampleField 1 2 False True] None))
   = [NOT_SIGNED, REJECTED]
   \<and> fst (completeDocumentWithToken exampleExternals (exampleCompleteOptions ''t1'')
        (exampleWorld PENDING PARALLEL
           [exampleRecipient 1 ''t1'' SIGNER NOT_SIGNED SENT,
            exampleRecipient 2 ''t2'' SIGNER REJECTED SENT]
           [exampleField 1 2 False True] None)) = Inr ()
   \<and> map r_signingStatus
       (recipients (snd (completeDocumentWithToken exampleExternals (exampleCompleteOptions ''t1'')
          (exampleWorld PENDING PARALLEL
             [exampleRecipient 1 ''t1'' SIGNER NOT_SIGNED SENT,
              exampleRecipient 2 ''t2'' SIGNER REJECTED SENT]
             [exampleField 1 2 False True] None))))
     = [SIGNED, SIGNED]
   \<and> map f_inserted
       (fieldRows (snd (completeDocumentWithToken exampleExternals (exampleCompleteOptions ''t1'')
          (exampleWorld PENDING PARALLEL
             [exampleRecipient 1 ''t1'' SIGNER NOT_SIGNED SENT,
              exampleRecipient 2 ''t2'' SIGNER REJECTED SENT]
             [exampleField 1 2 False True] None))))
     = [True]"
  by code_simp


section \<open>Notifications for signing requests\<close>

lemma tolerant_sendTransactionBody:
  assumes "tolerant I (\<lambda>_. True)"
    and "\<And>g. keeps I (updateEnvelope (e_id envelope) g)"
  shows "keeps I (sendTransactionBody ext envelope rs rm)"
  unfolding sendTransactionBody_def
  by (intro keeps_bindM keeps_if keeps_returnM tolerant_sendAutoSign[OF assms(1)]
      tolerant_createAuditLog[OF assms(1)] assms(2) keeps_findEnvelopeWithRecipients) simp_all

lemma keeps_notifyRecipient:
  assumes "r \<in> set rs"
  shows "keeps (\<lambda>w :: World. grows (notifiable rs) js (jobs w)) (notifyRecipient u d rm r)"
  unfolding notifyRecipient_def
  using assms
  by (auto intro!: keeps_returnM keeps_triggerJob_grow simp: list_ex_iff)

lemma keeps_updateEnvelopeItem_jobs:
  "keeps (\<lambda>w :: World. grows P js (jobs w)) (updateEnvelopeItem i g)"
  unfolding updateEnvelopeItem_def by (rule keeps_storeWrite2) simp_all

lemma keeps_updateEnvelope_jobs:
  "keeps (\<lambda>w :: World. grows P js (jobs w)) (updateEnvelope i g)"
  unfolding updateEnvelope_def by (rule keeps_storeWrite2) simp_all

lemma keeps_triggerWebhook_jobs:
  "keeps (\<lambda>w :: World. grows P js (jobs w)) (triggerWebhook h)"
  by (simp add: keeps_def triggerWebhook_def)

lemma keeps_injectFormValues_jobs:
  "keeps (\<lambda>w :: World. grows P js (jobs w)) (injectFormValuesIntoDocument ext envelope item)"
  unfolding injectFormValuesIntoDocument_def by (rule keeps_updateEnvelopeItem_jobs)

lemma keeps_sendDocumentSteps_jobs:
  assumes "set recipientsToNotify \<subseteq> set rs"
  shows "keeps (\<lambda>w :: World. grows (notifiable rs) js (jobs w))
           (sendDocumentSteps ext opts envelope ers items recipientsToNotify)"
proof -
  have n: "keeps (\<lambda>w :: World. grows (notifiable rs) js (jobs w)) (notifyRecipient u d rm r)"
    if "r \<in> set recipientsToNotify" for u d rm r
    using that assms by (intro keeps_notifyRecipient) auto
  have s: "notifiable rs (internal_seal_document d m)" for d m by simp
  show ?thesis
    unfolding sendDocumentSteps_def
    by (intro keeps_bindM keeps_if keeps_returnM keeps_forEachM keeps_findEnvelopeWithRecipients
      tolerant_transaction[OF tolerant_jobs_grow] tolerant_sendTransactionBody[OF tolerant_jobs_grow]
      keeps_triggerJob_grow keeps_injectFormValues_jobs keeps_updateEnvelope_jobs
      keeps_triggerWebhook_jobs n s)
qed

lemma set_sequentialRecipientsToNotify:
  "set (sequentialRecipientsToNotify rs) \<subseteq> set rs"
  unfolding sequentialRecipientsToNotify_def Let_def
  by (meson filter_is_subset set_take_subset subset_trans)

lemma sendDocument_jobs_grow:
  "grows (notifiable (recipients w)) (jobs w) (jobs (snd (sendDocument ext opts w)))"
proof -
  let ?I = "\<lambda>w' :: World. grows (notifiable (recipients w)) (jobs w) (jobs w')"
  have I0: "?I w" by (rule grows_refl)
  have steps: "?I (snd (sendDocumentSteps ext opts envelope ers items rtn w))"
    if "set rtn \<subseteq> set (recipients w)" for envelope ers items rtn
    using keepsD[OF keeps_sendDocumentSteps_jobs[OF that] I0] .
  have sub: "set (sequentialRecipientsToNotify (orderRecipients (filter P (recipients w))))
               \<subseteq> set (recipients w)" for P
    using set_sequentialRecipientsToNotify[of "orderRecipients (filter P (recipients w))"]
    by auto
  have sub2: "set (orderRecipients (filter P (recipients w))) \<subseteq> set (recipients w)" for P
    by auto
  show ?thesis
    unfolding sendDocument_def sendDocumentWith_def Let_def
    using I0 steps[OF sub] steps[OF sub2]
    by (simp split: option.splits)
qed

lemma advanceTransactionBody_unlimited:
  assumes "writesLeft w = None"
  shows "\<exists>w'. advanceTransactionBody ext opts envelope recipient nextRecipient w = (Inr (), w')
           \<and> jobs w' = jobs w @ [send_signing_requested_email (e_userId envelope)
                           (mapSecondaryIdToDocumentId ext (e_secondaryId envelope))
                           (r_id nextRecipient) (o_requestMetadata opts)]"
proof (cases "o_nextSigner opts")
  case None
  then show ?thesis using assms
    by (simp add: advanceTransactionBody_def bindM_def returnM_def updateRecipient_def
        storeWrite_unlimited triggerJob_def)
next
  case (Some s)
  obtain email name where s: "s = (email, name)" by (cases s)
  show ?thesis
  proof (cases "dictatesNextSigner opts envelope")
    case True
    then show ?thesis using assms Some s
      by (simp add: advanceTransactionBody_def bindM_def createAuditLog_def updateRecipient_def
          storeWrite_unlimited triggerJob_def)
  next
    case False
    then show ?thesis using assms Some s
      by (simp add: advanceTransactionBody_def bindM_def returnM_def updateRecipient_def
          storeWrite_unlimited triggerJob_def)
  qed
qed

lemma completeAdvance_notifies_next:
  assumes "envelopeSigningOrder envelope = Some SEQUENTIAL"
    and "orderRecipients
           (filter (\<lambda>r. r_envelopeId r = e_id envelope \<and> r_signingStatus r \<noteq> SIGNED
                       \<and> r_role r \<noteq> CC) (recipients w)) = nextRecipient # rest"
    and "writesLeft w = None"
  shows "fst (completeAdvance ext opts envelope recipient w) = Inr ()
         \<and> jobs (snd (completeAdvance ext opts envelope recipient w))
             = jobs w @ [send_signing_requested_email (e_userId envelope)
                           (mapSecondaryIdToDocumentId ext (e_secondaryId envelope))
                           (r_id nextRecipient) (o_requestMetadata opts)]"
proof -
  let ?w1 = "w\<lparr>pendingEmails := pendingEmails w @ [(o_id opts, r_id recipient)]\<rparr>"
  have "writesLeft ?w1 = None" using assms(3) by simp
  from advanceTransactionBody_unlimited[OF this, of ext opts envelope recipient nextRecipient]
  obtain w' where w': "advanceTransactionBody ext opts envelope recipient nextRecipient ?w1
      = (Inr (), w')"
    "jobs w' = jobs w @ [send_signing_requested_email (e_userId envelope)
                           (mapSecondaryIdToDocumentId ext (e_secondaryId envelope))
                           (r_id nextRecipient) (o_requestMetadata opts)]"
    by auto
  have "completeAdvance ext opts envelope recipient w = (Inr (), w')"
    using assms(1,2) w'(1)
    by (simp add: completeAdvance_def Let_def bindM_def sendPendingEmail_def transaction_def)
  then show ?thesis using w'(2) by simp
qed

lemma advanceTransactionBody_rows:
  assumes "writesLeft w = None"
  shows "recipients (snd (advanceTransactionBody ext opts envelope recipient nextRecipient w))
     = map (\<lambda>r. if r_id r = r_id nextRecipient
                then (case o_nextSigner opts of
                        None \<Rightarrow> r\<lparr>r_sendStatus := SENT\<rparr>
                      | Some (email, name) \<Rightarrow>
                          if dictatesNextSigner opts envelope
                          then r\<lparr>r_sendStatus := SENT, r_name := name, r_email := email\<rparr>
                          else r\<lparr>r_sendStatus := SENT\<rparr>)
                else r) (recipients w)"
proof (cases "o_nextSigner opts")
  case None
  then show ?thesis using assms
    by (simp add: advanceTransactionBody_def bindM_def returnM_def updateRecipient_def
        storeWrite_unlimited triggerJob_def)
next
  case (Some s)
  obtain email name where s: "s = (email, name)" by (cases s)
  show ?thesis
  proof (cases "dictatesNextSigner opts envelope")
    case True
    then show ?thesis using assms Some s
      by (simp add: advanceTransactionBody_def bindM_def createAuditLog_def updateRecipient_def
          storeWrite_unlimited triggerJob_def)
  next
    case False
    then show ?thesis using assms Some s
      by (simp add: advanceTransactionBody_def bindM_def returnM_def updateRecipient_def
          storeWrite_unlimited triggerJob_def)
  qed
qed

lemma completeAdvance_marks_next_sent:
  assumes "envelopeSigningOrder envelope = Some SEQUENTIAL"
    and "orderRecipients
           (filter (\<lambda>r. r_envelopeId r = e_id envelope \<and> r_signingStatus r \<noteq> SIGNED
                       \<and> r_role r \<noteq> CC) (recipients w)) = nextRecipient # rest"
    and "writesLeft w = None"
  shows "recipients (snd (completeAdvance ext opts envelope recipient w))
     = map (\<lambda>r. if r_id r = r_id nextRecipient
                then (case o_nextSigner opts of
                        None \<Rightarrow> r\<lparr>r_sendStatus := SENT\<rparr>
                      | Some (email, name) \<Rightarrow>
                          if dictatesNextSigner opts envelope
                          then r\<lparr>r_sendStatus := SENT, r_name := name, r_email := email\<rparr>
                          else r\<lparr>r_sendStatus := SENT\<rparr>)
                else r) (recipients w)"
proof -
  let ?w1 = "w\<lparr>pendingEmails := pendingEmails w @ [(o_id opts, r_id recipient)]\<rparr>"
  have n: "writesLeft ?w1 = None" using assms(3) by simp
  from advanceTransactionBody_unlimited[OF n, of ext opts envelope recipient nextRecipient]
  obtain w' where w': "advanceTransactionBody ext opts envelope recipient nextRecipient ?w1
      = (Inr (), w')"
    by auto
  have "completeAdvance ext opts envelope recipient w = (Inr (), w')"
    using assms(1,2) w'
    by (simp add: completeAdvance_def Let_def bindM_def sendPendingEmail_def transaction_def)
  then have "recipients (snd (completeAdvance ext opts envelope recipient w)) = recipients w'"
    by simp
  also have "recipients w'
      = recipients (snd (advanceTransactionBody ext opts envelope recipient nextRecipient ?w1))"
    using w' by simp
  also have "\<dots> = map (\<lambda>r. if r_id r = r_id nextRecipient
                then (case o_nextSigner opts of
                        None \<Rightarrow> r\<lparr>r_sendStatus := SENT\<rparr>
                      | Some (email, name) \<Rightarrow>
                          if dictatesNextSigner opts envelope
                          then r\<lparr>r_sendStatus := SENT, r_name := name, r_email := email\<rparr>
                          else r\<lparr>r_sendStatus := SENT\<rparr>)
                else r) (recipients ?w1)"
    by (rule advanceTransactionBody_rows[OF n])
  finally show ?thesis by simp
qed

lemma next_sent_after:
  assumes "nextRecipient \<in> set rs"
    and "\<And>r. r_id (g r) = r_id r \<and> r_sendStatus (g r) = SENT"
  shows "list_ex (\<lambda>r. r_id r = r_id nextRecipient \<and> r_sendStatus r = SENT)
           (map (\<lambda>r. if r_id r = r_id nextRecipient then g r else r) rs)
         \<and> list_all (\<lambda>r. r_id r = r_id nextRecipient \<longrightarrow> r_sendStatus r = SENT)
           (map (\<lambda>r. if r_id r = r_id nextRecipient then g r else r) rs)"
proof -
  have "g nextRecipient \<in> set (map (\<lambda>r. if r_id r = r_id nextRecipient then g r else r) rs)"
    using assms(1) by force
  then have "list_ex (\<lambda>r. r_id r = r_id nextRecipient \<and> r_sendStatus r = SENT)
           (map (\<lambda>r. if r_id r = r_id nextRecipient then g r else r) rs)"
    unfolding list_ex_iff using assms(2) by blast
  moreover have "list_all (\<lambda>r. r_id r = r_id nextRecipient \<longrightarrow> r_sendStatus r = SENT)
           (map (\<lambda>r. if r_id r = r_id nextRecipient then g r else r) rs)"
    using assms(2) by (auto simp: list_all_iff)
  ultimately show ?thesis by simp
qed

text \<open>
  Claim C6, as amended.  The notification dispatch of \<open>sendDocument\<close> requests a
  signing-requested email only for recipients that are neither SENT nor CC.  The advance
  after a completion under SEQUENTIAL order has no such exclusion: for the first pending
  recipient (not SIGNED, not CC, lowest signing order then id), whatever that recipient's
  send status is, it sets the send status of that recipient's row to SENT (with the name
  and email of the dictated next signer when there is one), leaves every other row as it
  was, and requests the email.
\<close>

theorem signing_request_notifications:
  "(\<exists>new. jobs (snd (sendDocument ext opts w)) = jobs w @ new
      \<and> (\<forall>u d recipientId m. send_signing_requested_email u d recipientId m \<in> set new \<longrightarrow>
            (\<exists>r\<in>set (recipients w).
               r_id r = recipientId \<and> r_sendStatus r \<noteq> SENT \<and> r_role r \<noteq> CC)))
   \<and> (\<forall>envelope recipient nextRecipient rest.
         envelopeSigningOrder envelope = Some SEQUENTIAL
         \<and> orderRecipients
             (filter (\<lambda>r. r_envelopeId r = e_id envelope \<and> r_signingStatus r \<noteq> SIGNED
                         \<and> r_role r \<noteq> CC) (recipients w)) = nextRecipient # rest
         \<and> writesLeft w = None \<longrightarrow>
         fst (completeAdvance ext copts envelope recipient w) = Inr ()
         \<and> jobs (snd (completeAdvance ext copts envelope recipient w))
             = jobs w @ [send_signing_requested_email (e_userId envelope)
                           (mapSecondaryIdToDocumentId ext (e_secondaryId envelope))
                           (r_id nextRecipient) (o_requestMetadata copts)]
         \<and> recipients (snd (completeAdvance ext copts envelope recipient w))
             = map (\<lambda>r. if r_id r = r_id nextRecipient
                        then (case o_nextSigner copts of
                                None \<Rightarrow> r\<lparr>r_sendStatus := SENT\<rparr>
                              | Some (email, name) \<Rightarrow>
                                  if dictatesNextSigner copts envelope
                                  then r\<lparr>r_sendStatus := SENT, r_name := name, r_email := email\<rparr>
                                  else r\<lparr>r_sendStatus := SENT\<rparr>)
                        else r) (recipients w)
         \<and> list_ex (\<lambda>r. r_id r = r_id nextRecipient \<and> r_sendStatus r = SENT)
             (recipients (snd (completeAdvance ext copts envelope recipient w)))
         \<and> list_all (\<lambda>r. r_id r = r_id nextRecipient \<longrightarrow> r_sendStatus r = SENT)
             (recipients (snd (completeAdvance ext copts envelope recipient w))))"
proof -
  have part1: "\<exists>new. jobs (snd (sendDocument ext opts w)) = jobs w @ new
      \<and> (\<forall>u d recipientId m. send_signing_requested_email u d recipientId m \<in> set new \<longrightarrow>
            (\<exists>r\<in>set (recipients w).
               r_id r = recipientId \<and> r_sendStatus r \<noteq> SENT \<and> r_role r \<noteq> CC))"
  proof -
    from sendDocument_jobs_grow[of w ext opts] obtain new where
      new: "jobs (snd (sendDocument ext opts w)) = jobs w @ new"
        "list_all (notifiable (recipients w)) new"
      by (auto simp: grows_def)
    have "\<exists>r\<in>set (recipients w). r_id r = recipientId \<and> r_sendStatus r \<noteq> SENT \<and> r_role r \<noteq> CC"
      if "send_signing_requested_email u d recipientId m \<in> set new" for u d recipientId m
    proof -
      have "notifiable (recipients w) (send_signing_requested_email u d recipientId m)"
        using new(2) that by (auto simp: list_all_iff)
      then show ?thesis by (simp add: list_ex_iff)
    qed
    then show ?thesis using new(1) by blast
  qed
  have part2: "fst (completeAdvance ext copts envelope recipient w) = Inr ()
         \<and> jobs (snd (completeAdvance ext copts envelope recipient w))
             = jobs w @ [send_signing_requested_email (e_userId envelope)
                           (mapSecondaryIdToDocumentId ext (e_secondaryId envelope))
                           (r_id nextRecipient) (o_requestMetadata copts)]
         \<and> recipients (snd (completeAdvance ext copts envelope recipient w))
             = map (\<lambda>r. if r_id r = r_id nextRecipient
                        then (case o_nextSigner copts of
                                None \<Rightarrow> r\<lparr>r_sendStatus := SENT\<rparr>
                              | Some (email, name) \<Rightarrow>
                                  if dictatesNextSigner copts envelope
                                  then r\<lparr>r_sendStatus := SENT, r_name := name, r_email := email\<rparr>
                                  else r\<lparr>r_sendStatus := SENT\<rparr>)
                        else r) (recipients w)
         \<and> list_ex (\<lambda>r. r_id r = r_id nextRecipient \<and> r_sendStatus r = SENT)
             (recipients (snd (completeAdvance ext copts envelope recipient w)))
         \<and> list_all (\<lambda>r. r_id r = r_id nextRecipient \<longrightarrow> r_sendStatus r = SENT)
             (recipients (snd (completeAdvance ext copts envelope recipient w)))"
    if h: "envelopeSigningOrder envelope = Some SEQUENTIAL
         \<and> orderRecipients
             (filter (\<lambda>r. r_envelopeId r = e_id envelope \<and> r_signingStatus r \<noteq> SIGNED
                         \<and> r_role r \<noteq> CC) (recipients w)) = nextRecipient # rest
         \<and> writesLeft w = None"
    for envelope recipient nextRecipient rest
  proof -
    from h have h1: "envelopeSigningOrder envelope = Some SEQUENTIAL"
      and h2: "orderRecipients
             (filter (\<lambda>r. r_envelopeId r = e_id envelope \<and> r_signingStatus r \<noteq> SIGNED
                         \<and> r_role r \<noteq> CC) (recipients w)) = nextRecipient # rest"
      and h3: "writesLeft w = None" by simp_all
    note a = completeAdvance_notifies_next[OF h1 h2 h3, of ext copts recipient]
    note b = completeAdvance_marks_next_sent[OF h1 h2 h3, of ext copts recipient]
    have "nextRecipient \<in> set (orderRecipients
             (filter (\<lambda>r. r_envelopeId r = e_id envelope \<and> r_signingStatus r \<noteq> SIGNED
                         \<and> r_role r \<noteq> CC) (recipients w)))"
      using h2 by simp
    then have m: "nextRecipient \<in> set (recipients w)" by simp
    have c: "list_ex (\<lambda>r. r_id r = r_id nextRecipient \<and> r_sendStatus r = SENT)
               (recipients (snd (completeAdvance ext copts envelope recipient w)))
             \<and> list_all (\<lambda>r. r_id r = r_id nextRecipient \<longrightarrow> r_sendStatus r = SENT)
               (recipients (snd (completeAdvance ext copts envelope recipient w)))"
      unfolding b
      by (rule next_sent_after[OF m]) (simp split: option.splits)
    show ?thesis
      using a b c by blast
  qed
  show ?thesis
    using part1 part2 by blast
qed

theorem signing_request_notifications_witness:
  "fst (completeAdvance exampleExternals (exampleCompleteOptions ''t1'')
          (exampleEnvelope PENDING SEQUENTIAL) (exampleRecipient 1 ''t1'' SIGNER SIGNED SENT)
          (exampleWorld PENDING SEQUENTIAL
             [exampleRecipient 1 ''t1'' SIGNER SIGNED SENT,
              exampleRecipient 2 ''t2'' SIGNER NOT_SIGNED NOT_SENT] [] None)) = Inr ()
   \<and> jobs (snd (completeAdvance exampleExternals (exampleCompleteOptions ''t1'')
          (exampleEnvelope PENDING SEQUENTIAL) (exampleRecipient 1 ''t1'' SIGNER SIGNED SENT)
          (exampleWorld PENDING SEQUENTIAL
             [exampleRecipient 1 ''t1'' SIGNER SIGNED SENT,
              exampleRecipient 2 ''t2'' SIGNER NOT_SIGNED NOT_SENT] [] None)))
     = [send_signing_requested_email 1 7 2
          (Some \<lparr>ipAddress = Some ''10.0.0.1'', userAgent = None\<rparr>)]
   \<and> recipients (snd (completeAdvance exampleExternals (exampleCompleteOptions ''t1'')
          (exampleEnvelope PENDING SEQUENTIAL) (exampleRecipient 1 ''t1'' SIGNER SIGNED SENT)
          (exampleWorld PENDING SEQUENTIAL
             [exampleRecipient 1 ''t1'' SIGNER SIGNED SENT,
              exampleRecipient 2 ''t2'' SIGNER NOT_SIGNED NOT_SENT] [] None)))
     = [exampleRecipient 1 ''t1'' SIGNER SIGNED SENT,
        exampleRecipient 2 ''t2'' SIGNER NOT_SIGNED SENT]"
  using signing_request_notifications
    [where ext = exampleExternals and copts = "exampleCompleteOptions ''t1''"
       and w = "exampleWorld PENDING SEQUENTIAL
                  [exampleRecipient 1 ''t1'' SIGNER SIGNED SENT,
                   exampleRecipient 2 ''t2'' SIGNER NOT_SIGNED NOT_SENT] [] None"]
  by (simp add: example_defs)

text \<open>
  The claim as stated fails for the advance: recipient 2 is already SENT when recipient 1
  completes under SEQUENTIAL order, and the signing-requested email is requested for
  recipient 2 all the same.
\<close>

theorem completion_renotifies_sent_recipient:
  "r_sendStatus (exampleRecipient 2 ''t2'' SIGNER NOT_SIGNED SENT) = SENT
   \<and> jobs (snd (completeDocumentWithToken exampleExternals (exampleCompleteOptions ''t1'')
        (exampleWorld PENDING SEQUENTIAL
           [exampleRecipient 1 ''t1'' SIGNER NOT_SIGNED SENT,
            exampleRecipient 2 ''t2'' SIGNER NOT_SIGNED SENT] [] None)))
     = [send_recipient_signed_email 7 1,
        send_signing_requested_email 1 7 2
          (Some \<lparr>ipAddress = Some ''10.0.0.1'', userAgent = None\<rparr>)]"
  by code_simp

section \<open>Audit entries of auto-signing\<close>

lemma tolerant_audit_grow: "tolerant (\<lambda>w :: World. grows P as (auditLogs w)) P"
  by (simp add: tolerant_def rollback_def grows_snoc)

lemma autoSignEntry_system:
  "autoSignEntry E md a \<Longrightarrow> ipAddress (am_requestMetadata md) = None \<Longrightarrow> systemEntry a"
  by (auto simp: autoSignEntry_def systemEntry_def auditIpAddress_def auditActionAuth_def
      split: AuditData.splits)

lemma sendAutoSign_entries:
  "grows systemEntry (auditLogs w) (auditLogs (snd (sendAutoSign ext envelope rs rm w)))"
proof -
  have "keeps (\<lambda>w' :: World. grows systemEntry (auditLogs w) (auditLogs w'))
          (sendAutoSign ext envelope rs rm)"
    by (rule tolerant_sendAutoSign[OF tolerant_audit_grow])
       (auto intro: autoSignEntry_system simp: autoSignMetadataSend_def)
  from keepsD[OF this grows_refl] show ?thesis .
qed

lemma keeps_completeAutoSign_entries:
  "keeps (\<lambda>w' :: World. grows systemEntry as (auditLogs w')) (completeAutoSign ext envelope rm)"
  by (rule tolerant_completeAutoSign[OF tolerant_audit_grow])
     (auto intro: autoSignEntry_system simp: autoSignMetadataComplete_def)

lemma completeAutoSign_entries:
  "grows systemEntry (auditLogs w) (auditLogs (snd (completeAutoSign ext envelope rm w)))"
  using keepsD[OF keeps_completeAutoSign_entries grows_refl] .

lemma storeWrite_Inr: "storeWrite f w = (Inr u, w') \<Longrightarrow> \<exists>n. w' = f (w\<lparr>writesLeft := n\<rparr>)"
proof (cases "writesLeft w")
  case None
  assume "storeWrite f w = (Inr u, w')"
  then have "w' = f w" using None by (simp add: storeWrite_def)
  moreover have "w\<lparr>writesLeft := None\<rparr> = w" using None by simp
  ultimately have "w' = f (w\<lparr>writesLeft := None\<rparr>)" by simp
  then show ?thesis by blast
next
  case (Some k)
  assume "storeWrite f w = (Inr u, w')"
  then show ?thesis using Some by (cases k) (auto simp: storeWrite_def)
qed

lemma markSigned_Inr: "markSigned ext rid w = (Inr u, w') \<Longrightarrow> auditLogs w' = auditLogs w"
  unfolding markSigned_def updateRecipient_def by (auto dest!: storeWrite_Inr)

lemma createAuditLog_Inr: "createAuditLog a w = (Inr u, w') \<Longrightarrow> auditLogs w' = auditLogs w @ [a]"
  unfolding createAuditLog_def by (auto dest!: storeWrite_Inr)

lemma completeTransactionBody_entries:
  assumes "completeTransactionBody ext opts envelope recipient w = (Inr u, w')"
  shows "\<exists>new. auditLogs w' = auditLogs w @ completedAuditLog ext opts envelope recipient # new
           \<and> list_all systemEntry new"
proof -
  let ?auto = "\<lambda>(_::unit) w.
          (let allFields = filter (\<lambda>f. f_envelopeId f = e_id envelope) (fieldRows w);
               nonAutoSignFields = filter (\<lambda>f. \<not> f_autosign f) allFields;
               allNonAutoSignFieldsComplete =
                 \<not> fieldsContainUnsignedRequiredField nonAutoSignFields
           in if allNonAutoSignFieldsComplete
              then completeAutoSign ext envelope (o_requestMetadata opts) w
              else (Inr (), w))"
  from assms obtain w1 w2 where
    1: "markSigned ext (r_id recipient) w = (Inr (), w1)"
    and 2: "createAuditLog (completedAuditLog ext opts envelope recipient) w1 = (Inr (), w2)"
    and 3: "?auto () w2 = (Inr u, w')"
    unfolding completeTransactionBody_def bindM_Inr_iff by auto
  have a2: "auditLogs w2 = auditLogs w @ [completedAuditLog ext opts envelope recipient]"
    using markSigned_Inr[OF 1] createAuditLog_Inr[OF 2] by simp
  have "grows systemEntry (auditLogs w2) (auditLogs (snd (?auto () w2)))"
    using completeAutoSign_entries[of w2 ext envelope "o_requestMetadata opts"]
    by (simp add: Let_def grows_refl)
  then show ?thesis using 3 a2 by (auto simp: grows_def)
qed


lemma autoSignEntry_shaped:
  "autoSignEntry E md a \<Longrightarrow> ipAddress (am_requestMetadata md) = None \<Longrightarrow>
     systemEntry a \<and> autoSignEntry E md a"
  by (simp add: autoSignEntry_system)









section \<open>Frames of the writes\<close>

lemma frame_refl: "frame RS FS PA w w"
  by (simp add: frame_def grows_refl list_all2_refl recipientKept_def fieldKept_def)

lemma frame_writesLeft: "frame RS FS PA w0 w \<Longrightarrow> frame RS FS PA w0 (w\<lparr>writesLeft := n\<rparr>)"
  by (simp add: frame_def)

lemma frame_rollback:
  "frame RS FS PA w0 w \<Longrightarrow> frame RS FS PA w0 w' \<Longrightarrow> frame RS FS PA w0 (rollback w w')"
  by (simp add: frame_def rollback_def)

lemma frame_createAuditLog: "PA a \<Longrightarrow> keeps (frame RS FS PA w0) (createAuditLog a)"
  unfolding createAuditLog_def
  by (rule keeps_storeWrite2) (simp_all add: frame_def grows_snoc)

lemma frame_createSignature:
  "s_fieldId s \<in> FS \<Longrightarrow> keeps (frame RS FS PA w0) (createSignature s)"
  unfolding createSignature_def
  by (rule keeps_storeWrite2) (simp_all add: frame_def grows_snoc)

lemma frame_updateRecipient:
  assumes "rid \<in> RS" and "\<And>r. r_id (g r) = r_id r \<and> r_envelopeId (g r) = r_envelopeId r"
  shows "keeps (frame RS FS PA w0) (updateRecipient rid g)"
  unfolding updateRecipient_def
proof (rule keeps_storeWrite2)
  fix w assume f: "frame RS FS PA w0 w"
  have "list_all2 (recipientKept RS) (recipients w0)
          (map (\<lambda>r. if r_id r = rid then g r else r) (recipients w))"
    unfolding list_all2_map2
    by (rule list_all2_mono[of "recipientKept RS"])
       (use f assms in \<open>auto simp: frame_def recipientKept_def\<close>)
  then show "frame RS FS PA w0
     (w\<lparr>recipients := map (\<lambda>r. if r_id r = rid then g r else r) (recipients w)\<rparr>)"
    using f by (simp add: frame_def)
qed (simp add: frame_def)

lemma frame_markSigned: "rid \<in> RS \<Longrightarrow> keeps (frame RS FS PA w0) (markSigned ext rid)"
  unfolding markSigned_def by (rule frame_updateRecipient) simp_all

lemma frame_insertField:
  assumes "fid \<in> FS"
  shows "keeps (frame RS FS PA w0) (updateField fid (\<lambda>f. f\<lparr>f_inserted := True\<rparr>))"
  unfolding updateField_def
proof (rule keeps_storeWrite2)
  fix w assume f: "frame RS FS PA w0 w"
  have "list_all2 (fieldKept FS) (fieldRows w0)
          (map (\<lambda>f. if f_id f = fid then f\<lparr>f_inserted := True\<rparr> else f) (fieldRows w))"
    unfolding list_all2_map2
    by (rule list_all2_mono[of "fieldKept FS"])
       (use f assms in \<open>auto simp: frame_def fieldKept_def\<close>)
  then show "frame RS FS PA w0
     (w\<lparr>fieldRows := map (\<lambda>f. if f_id f = fid then f\<lparr>f_inserted := True\<rparr> else f)
                        (fieldRows w)\<rparr>)"
    using f by (simp add: frame_def)
qed (simp add: frame_def)

lemma frame_triggerJob: "keeps (frame RS FS PA w0) (triggerJob j)"
  by (simp add: keeps_def triggerJob_def frame_def)

lemma frame_sendPendingEmail: "keeps (frame RS FS PA w0) (sendPendingEmail i r)"
  by (simp add: keeps_def sendPendingEmail_def frame_def)

lemma frame_triggerWebhook: "keeps (frame RS FS PA w0) (triggerWebhook h)"
  by (simp add: keeps_def triggerWebhook_def frame_def)

lemma frame_transaction:
  "keeps (frame RS FS PA w0) body \<Longrightarrow> keeps (frame RS FS PA w0) (transaction body)"
  by (rule keeps_transaction) (auto intro: frame_rollback)

lemma frame_autoSignField:
  assumes "f_id (fst fr) \<in> FS"
    and "\<And>a. autoSignEntry E md a \<Longrightarrow> fieldInsertedEntry a \<Longrightarrow> PA a"
  shows "keeps (frame RS FS PA w0) (autoSignField E md fr)"
  unfolding autoSignField_def
  using assms(1)
  by (cases fr)
     (auto intro!: keeps_bindM keeps_returnM frame_createSignature frame_insertField
        frame_createAuditLog assms(2) simp: autoSignEntry_def fieldInsertedEntry_def)

lemma frame_autoCompleted:
  assumes "rid \<in> RS" and "PA (autoCompletedAuditLog E md r)"
  shows "keeps (frame RS FS PA w0)
           (bindM (markSigned ext rid) (\<lambda>_. createAuditLog (autoCompletedAuditLog E md r)))"
  by (intro keeps_bindM frame_markSigned frame_createAuditLog assms)

text \<open>Fields and recipients found in a framed world come from rows of \<open>w0\<close>.\<close>

lemma list_all2_origin:
  "list_all2 P xs ys \<Longrightarrow> y \<in> set ys \<Longrightarrow> \<exists>x\<in>set xs. P x y"
  by (induction rule: list_all2_induct) auto

lemma frame_field_origin:
  assumes "frame RS FS PA w0 w" and "f \<in> set (fieldRows w)"
  obtains f0 where "f0 \<in> set (fieldRows w0)" "fieldKept FS f0 f"
  using assms list_all2_origin[of "fieldKept FS" "fieldRows w0" "fieldRows w" f]
  by (auto simp: frame_def)

lemma frame_recipient_origin:
  assumes "frame RS FS PA w0 w" and "r \<in> set (recipients w)"
  obtains r0 where "r0 \<in> set (recipients w0)" "recipientKept RS r0 r"
  using assms list_all2_origin[of "recipientKept RS" "recipients w0" "recipients w" r]
  by (auto simp: frame_def)

lemma includeRecipient_Some:
  "includeRecipient rs f = Some fr \<longleftrightarrow>
     (\<exists>r. find (\<lambda>r. r_id r = f_recipientId f) rs = Some r \<and> fr = (f, r))"
  by (auto simp: includeRecipient_def)

lemma those_includeRecipient:
  "those (map (includeRecipient rs) fs) = Some frs \<Longrightarrow>
      map fst frs = fs
      \<and> (\<forall>fr\<in>set frs. find (\<lambda>r. r_id r = f_recipientId (fst fr)) rs = Some (snd fr))"
proof (induction fs arbitrary: frs)
  case Nil
  then show ?case by simp
next
  case (Cons f fs)
  from Cons.prems obtain fr frs' where
    fr: "includeRecipient rs f = Some fr"
    and t: "those (map (includeRecipient rs) fs) = Some frs'"
    and frs: "frs = fr # frs'"
    by (auto split: option.splits)
  from fr obtain r where r: "find (\<lambda>r. r_id r = f_recipientId f) rs = Some r" "fr = (f, r)"
    by (auto simp: includeRecipient_Some)
  from Cons.IH[OF t] r frs show ?case by simp
qed

lemma findAutoSignFields_Inr:
  assumes "findAutoSignFields E w = (Inr frs, w')"
  shows "w' = w
     \<and> map fst frs = filter (\<lambda>f. f_envelopeId f = E \<and> f_autosign f \<and> \<not> f_inserted f) (fieldRows w)
     \<and> (\<forall>fr\<in>set frs. find (\<lambda>r. r_id r = f_recipientId (fst fr)) (recipients w) = Some (snd fr))"
proof -
  let ?sel = "filter (\<lambda>f. f_envelopeId f = E \<and> f_autosign f \<and> \<not> f_inserted f) (fieldRows w)"
  from assms have "those (map (includeRecipient (recipients w)) ?sel) = Some frs" "w' = w"
    by (auto simp: findAutoSignFields_def split: option.splits)
  then show ?thesis using those_includeRecipient by blast
qed

lemma autoSignFieldLoop_ids:
  "autoSignFieldLoop E md frs seen w = (Inr ids, w') \<Longrightarrow>
     set ids \<subseteq> set seen \<union> (\<lambda>fr. f_recipientId (fst fr)) ` set frs"
proof (induction frs arbitrary: seen w)
  case Nil
  then show ?case by (simp add: returnM_def)
next
  case (Cons fr frs)
  from Cons.prems obtain w1 where
    "autoSignFieldLoop E md frs (setAdd (f_recipientId (fst fr)) seen) w1 = (Inr ids, w')"
    by (auto simp: bindM_Inr_iff)
  from Cons.IH[OF this] show ?case by (auto simp: setAdd_def split: if_splits)
qed

lemma frame_completeMarkRecipient:
  assumes "\<And>w r. frame RS FS PA w0 w \<Longrightarrow> find (\<lambda>r. r_id r = rid) (recipients w) = Some r
             \<Longrightarrow> r_signingStatus r \<noteq> SIGNED
             \<Longrightarrow> rid \<in> RS \<and> PA (autoCompletedAuditLog (e_id envelope)
                                    (autoSignMetadataComplete rm) r)"
  shows "keeps (frame RS FS PA w0) (completeMarkRecipient ext envelope rm rid)"
proof (rule keepsI)
  fix w assume w: "frame RS FS PA w0 w"
  show "frame RS FS PA w0 (snd (completeMarkRecipient ext envelope rm rid w))"
  proof (cases "find (\<lambda>r. r_id r = rid) (recipients w)")
    case None
    then show ?thesis using w by (simp add: completeMarkRecipient_def)
  next
    case (Some r)
    show ?thesis
    proof (cases "r_signingStatus r = SIGNED
                  \<or> fieldsContainUnsignedRequiredField (fieldsOfRecipient (e_id envelope) rid w)")
      case True
      then show ?thesis using w Some by (auto simp: completeMarkRecipient_def Let_def)
    next
      case False
      then have "rid \<in> RS \<and> PA (autoCompletedAuditLog (e_id envelope)
                                    (autoSignMetadataComplete rm) r)"
        using assms[OF w Some] by simp
      then have "keeps (frame RS FS PA w0)
           (bindM (markSigned ext rid) (\<lambda>_. createAuditLog
              (autoCompletedAuditLog (e_id envelope) (autoSignMetadataComplete rm) r)))"
        by (intro frame_autoCompleted) simp_all
      from keepsD[OF this w] show ?thesis
        using Some False by (simp add: completeMarkRecipient_def Let_def)
    qed
  qed
qed

lemma frame_sendMarkRecipient:
  assumes "\<And>r. find (\<lambda>r. r_id r = rid) ers = Some r \<Longrightarrow> r_signingStatus r \<noteq> SIGNED
             \<Longrightarrow> rid \<in> RS \<and> PA (autoCompletedAuditLog (e_id envelope)
                                    (autoSignMetadataSend rm) r)"
  shows "keeps (frame RS FS PA w0) (sendMarkRecipient ext envelope ers rm rid)"
proof (rule keepsI)
  fix w assume w: "frame RS FS PA w0 w"
  show "frame RS FS PA w0 (snd (sendMarkRecipient ext envelope ers rm rid w))"
  proof (cases "find (\<lambda>r. r_id r = rid) ers")
    case None
    then show ?thesis using w by (simp add: sendMarkRecipient_def)
  next
    case (Some r)
    show ?thesis
    proof (cases "r_signingStatus r = SIGNED
                  \<or> fieldsContainUnsignedRequiredField (fieldsOfRecipient (e_id envelope) rid w)")
      case True
      then show ?thesis using w Some by (auto simp: sendMarkRecipient_def Let_def)
    next
      case False
      then have "rid \<in> RS \<and> PA (autoCompletedAuditLog (e_id envelope)
                                    (autoSignMetadataSend rm) r)"
        using assms[OF Some] by simp
      then have "keeps (frame RS FS PA w0)
           (bindM (markSigned ext rid) (\<lambda>_. createAuditLog
              (autoCompletedAuditLog (e_id envelope) (autoSignMetadataSend rm) r)))"
        by (intro frame_autoCompleted) simp_all
      from keepsD[OF this w] show ?thesis
        using Some False by (simp add: sendMarkRecipient_def Let_def)
    qed
  qed
qed

text \<open>
  The resolution as a whole, given that the fields it selects in a framed world have their
  identifiers in \<open>FS\<close> and their recipients in \<open>RFS\<close>, and that marking a recipient of
  \<open>RFS\<close> keeps the frame.
\<close>

lemma frame_resolution:
  assumes sel: "\<And>w f. frame RS FS PA w0 w \<Longrightarrow> f \<in> set (fieldRows w) \<Longrightarrow> f_envelopeId f = E
                  \<Longrightarrow> f_autosign f \<Longrightarrow> \<not> f_inserted f
                  \<Longrightarrow> f_id f \<in> FS \<and> f_recipientId f \<in> RFS"
    and entry: "\<And>a. autoSignEntry E md a \<Longrightarrow> fieldInsertedEntry a \<Longrightarrow> PA a"
    and mark: "\<And>rid. rid \<in> RFS \<Longrightarrow> keeps (frame RS FS PA w0) (markStep rid)"
  shows "keeps (frame RS FS PA w0)
           (bindM (findAutoSignFields E)
              (\<lambda>autoSignFields.
                 bindM (autoSignFieldLoop E md autoSignFields []) (forEachM markStep)))"
proof (rule keeps_bindM_val)
  show "keeps (frame RS FS PA w0) (findAutoSignFields E)"
    by (rule keeps_findAutoSignFields)
next
  fix w frs w1
  assume w: "frame RS FS PA w0 w" and f: "findAutoSignFields E w = (Inr frs, w1)"
    and w1: "frame RS FS PA w0 w1"
  note fa = findAutoSignFields_Inr[OF f]
  have ids: "f_id (fst fr) \<in> FS \<and> f_recipientId (fst fr) \<in> RFS" if "fr \<in> set frs" for fr
  proof -
    have "fst fr \<in> set (map fst frs)" using that by simp
    then have "fst fr \<in> set (filter (\<lambda>f. f_envelopeId f = E \<and> f_autosign f \<and> \<not> f_inserted f)
                               (fieldRows w))"
      using fa by simp
    then show ?thesis using sel[OF w] by simp
  qed
  have "keeps (frame RS FS PA w0)
          (bindM (autoSignFieldLoop E md frs []) (forEachM markStep))"
  proof (rule keeps_bindM_val)
    show "keeps (frame RS FS PA w0) (autoSignFieldLoop E md frs [])"
      by (intro keeps_autoSignFieldLoop frame_autoSignField entry) (use ids in auto)
  next
    fix w2 rids w3
    assume l: "autoSignFieldLoop E md frs [] w2 = (Inr rids, w3)" and w3: "frame RS FS PA w0 w3"
    have "set rids \<subseteq> RFS" using autoSignFieldLoop_ids[OF l] ids by auto
    then have "keeps (frame RS FS PA w0) (forEachM markStep rids)"
      by (intro keeps_forEachM mark) auto
    from keepsD[OF this w3] show "frame RS FS PA w0 (snd (forEachM markStep rids w3))" .
  qed
  from keepsD[OF this w1]
  show "frame RS FS PA w0 (snd (bindM (autoSignFieldLoop E md frs []) (forEachM markStep) w1))" .
qed

lemma frame_completeAutoSign:
  assumes "\<And>w f. frame RS FS PA w0 w \<Longrightarrow> f \<in> set (fieldRows w)
                  \<Longrightarrow> f_envelopeId f = e_id envelope
                  \<Longrightarrow> f_autosign f \<Longrightarrow> \<not> f_inserted f
                  \<Longrightarrow> f_id f \<in> FS \<and> f_recipientId f \<in> RFS"
    and "\<And>a. autoSignEntry (e_id envelope) (autoSignMetadataComplete rm) a
            \<Longrightarrow> fieldInsertedEntry a \<Longrightarrow> PA a"
    and "\<And>rid. rid \<in> RFS
            \<Longrightarrow> keeps (frame RS FS PA w0) (completeMarkRecipient ext envelope rm rid)"
  shows "keeps (frame RS FS PA w0) (completeAutoSign ext envelope rm)"
  unfolding completeAutoSign_def
  by (rule frame_resolution[where RFS = RFS]) (use assms in auto)

lemma sendAutoSign_alt:
  "sendAutoSign ext envelope ers rm =
      bindM (findAutoSignFields (e_id envelope))
        (\<lambda>autoSignFields.
           bindM (autoSignFieldLoop (e_id envelope) (autoSignMetadataSend rm) autoSignFields [])
             (forEachM (sendMarkRecipient ext envelope ers rm)))"
proof -
  have "(if 0 < length frs
           then bindM (autoSignFieldLoop (e_id envelope) (autoSignMetadataSend rm) frs [])
                  (forEachM (sendMarkRecipient ext envelope ers rm))
           else returnM ())
        = bindM (autoSignFieldLoop (e_id envelope) (autoSignMetadataSend rm) frs [])
            (forEachM (sendMarkRecipient ext envelope ers rm))" for frs
    by (cases frs) (auto simp: bindM_def returnM_def fun_eq_iff)
  then show ?thesis by (simp add: sendAutoSign_def)
qed

lemma frame_sendAutoSign:
  assumes "\<And>w f. frame RS FS PA w0 w \<Longrightarrow> f \<in> set (fieldRows w)
                  \<Longrightarrow> f_envelopeId f = e_id envelope
                  \<Longrightarrow> f_autosign f \<Longrightarrow> \<not> f_inserted f
                  \<Longrightarrow> f_id f \<in> FS \<and> f_recipientId f \<in> RFS"
    and "\<And>a. autoSignEntry (e_id envelope) (autoSignMetadataSend rm) a
            \<Longrightarrow> fieldInsertedEntry a \<Longrightarrow> PA a"
    and "\<And>rid. rid \<in> RFS
            \<Longrightarrow> keeps (frame RS FS PA w0) (sendMarkRecipient ext envelope ers rm rid)"
  shows "keeps (frame RS FS PA w0) (sendAutoSign ext envelope ers rm)"
  unfolding sendAutoSign_alt
  by (rule frame_resolution[where RFS = RFS]) (use assms in auto)

section \<open>Idempotence of the auto-sign resolution\<close>

lemma createSignature_Inr: "createSignature s w = (Inr u, w') \<Longrightarrow> fieldRows w' = fieldRows w"
  unfolding createSignature_def by (auto dest!: storeWrite_Inr)

lemma createAuditLog_fields: "createAuditLog a w = (Inr u, w') \<Longrightarrow> fieldRows w' = fieldRows w"
  unfolding createAuditLog_def by (auto dest!: storeWrite_Inr)

lemma updateField_Inr:
  "updateField fid g w = (Inr u, w') \<Longrightarrow>
     fieldRows w' = map (\<lambda>f. if f_id f = fid then g f else f) (fieldRows w)"
  unfolding updateField_def by (auto dest!: storeWrite_Inr)

lemma autoSignField_fields:
  assumes "autoSignField E md (f, r) w = (Inr u, w')"
  shows "fieldRows w' =
           map (\<lambda>x. if f_id x = f_id f then x\<lparr>f_inserted := True\<rparr> else x) (fieldRows w)"
proof -
  from assms obtain w1 w2 where
    1: "(if f_type f = SIGNATURE \<or> f_type f = FREE_SIGNATURE
         then createSignature
                \<lparr>s_fieldId = f_id f, s_recipientId = f_recipientId f,
                 s_typedSignature = orElse (r_name r) (r_email r)\<rparr>
         else returnM ()) w = (Inr (), w1)"
    and 2: "updateField (f_id f) (\<lambda>f. f\<lparr>f_inserted := True\<rparr>) w1 = (Inr (), w2)"
    and 3: "createAuditLog
                 \<lparr>a_envelopeId = E, a_user = None, a_requestMetadata = None,
                  a_metadata = Some md,
                  a_data = DOCUMENT_FIELD_INSERTED (r_email r) (f_recipientId f)
                             (r_name r) (r_role r) (f_secondaryId f)
                             (f_type f) (orElse (r_name r) (r_email r))\<rparr> w2 = (Inr u, w')"
    by (auto simp: autoSignField_def bindM_Inr_iff)
  have "fieldRows w1 = fieldRows w"
    using 1 createSignature_Inr by (auto simp: returnM_def split: if_splits)
  then show ?thesis using updateField_Inr[OF 2] createAuditLog_fields[OF 3] by simp
qed

lemma autoSignFieldLoop_fields:
  "autoSignFieldLoop E md frs seen w = (Inr ids, w') \<Longrightarrow>
     list_all2 (insertedAfter (f_id ` fst ` set frs)) (fieldRows w) (fieldRows w')"
proof (induction frs arbitrary: seen w)
  case Nil
  then show ?case by (simp add: returnM_def list_all2_refl insertedAfter_def)
next
  case (Cons fr frs)
  obtain f r where fr: "fr = (f, r)" by (cases fr)
  from Cons.prems obtain w1 where
    1: "autoSignField E md (f, r) w = (Inr (), w1)"
    and 2: "autoSignFieldLoop E md frs (setAdd (f_recipientId (fst fr)) seen) w1 = (Inr ids, w')"
    by (auto simp: bindM_Inr_iff fr)
  note ih = Cons.IH[OF 2]
  have "list_all2 (\<lambda>x. insertedAfter (f_id ` fst ` set frs)
                        (if f_id x = f_id f then x\<lparr>f_inserted := True\<rparr> else x))
          (fieldRows w) (fieldRows w')"
    using ih unfolding autoSignField_fields[OF 1] list_all2_map1 .
  then show ?case
    by (rule list_all2_mono) (auto simp: insertedAfter_def fr split: if_splits)
qed

lemma frame_fields_same:
  "frame RS {} PA w0 w \<Longrightarrow> fieldRows w = fieldRows w0"
proof -
  assume "frame RS {} PA w0 w"
  then have "list_all2 (fieldKept {}) (fieldRows w0) (fieldRows w)" by (simp add: frame_def)
  then have "list_all2 (\<lambda>f0 f. f0 = f) (fieldRows w0) (fieldRows w)"
    by (rule list_all2_mono) (simp add: fieldKept_def)
  then have "fieldRows w0 = fieldRows w" by (simp add: list_all2_eq)
  then show ?thesis by simp
qed

lemma completeMark_fields:
  "fieldRows (snd (forEachM (completeMarkRecipient ext envelope rm) ids w)) = fieldRows w"
proof -
  have "keeps (frame UNIV {} (\<lambda>_. True) w) (forEachM (completeMarkRecipient ext envelope rm) ids)"
    by (intro keeps_forEachM frame_completeMarkRecipient) simp
  from frame_fields_same[OF keepsD[OF this frame_refl]] show ?thesis .
qed

lemma sendMark_fields:
  "fieldRows (snd (forEachM (sendMarkRecipient ext envelope ers rm) ids w)) = fieldRows w"
proof -
  have "keeps (frame UNIV {} (\<lambda>_. True) w) (forEachM (sendMarkRecipient ext envelope ers rm) ids)"
    by (intro keeps_forEachM frame_sendMarkRecipient) simp
  from frame_fields_same[OF keepsD[OF this frame_refl]] show ?thesis .
qed

text \<open>After a resolution that returned, no auto-sign field of the envelope is left uninserted.\<close>

lemma resolution_leaves_none:
  assumes run: "bindM (findAutoSignFields E)
              (\<lambda>autoSignFields.
                 bindM (autoSignFieldLoop E md autoSignFields []) (forEachM markStep)) w
            = (Inr u, w')"
    and mark: "\<And>ids w. fieldRows (snd (forEachM markStep ids w)) = fieldRows w"
  shows "filter (\<lambda>f. f_envelopeId f = E \<and> f_autosign f \<and> \<not> f_inserted f) (fieldRows w') = []"
proof -
  from run obtain frs w1 ids w2 where
    f: "findAutoSignFields E w = (Inr frs, w1)"
    and l: "autoSignFieldLoop E md frs [] w1 = (Inr ids, w2)"
    and m: "forEachM markStep ids w2 = (Inr u, w')"
    unfolding bindM_Inr_iff by blast
  note fa = findAutoSignFields_Inr[OF f]
  have w1: "w1 = w" using fa by simp
  have rows: "fieldRows w' = fieldRows w2" using mark[of ids w2] m by simp
  have rel: "list_all2 (insertedAfter (f_id ` fst ` set frs)) (fieldRows w) (fieldRows w')"
    using autoSignFieldLoop_fields[OF l] w1 rows by simp
  have "\<not> (f_envelopeId x' = E \<and> f_autosign x' \<and> \<not> f_inserted x')"
    if "x' \<in> set (fieldRows w')" for x'
  proof
    assume s: "f_envelopeId x' = E \<and> f_autosign x' \<and> \<not> f_inserted x'"
    from list_all2_origin[OF rel that] obtain x where
      x: "x \<in> set (fieldRows w)" "insertedAfter (f_id ` fst ` set frs) x x'" by blast
    then have sel: "f_envelopeId x = E \<and> f_autosign x \<and> \<not> f_inserted x"
      and notin: "f_id x \<notin> f_id ` fst ` set frs"
      using s by (auto simp: insertedAfter_def)
    from sel x(1) have "x \<in> set (map fst frs)" using fa by simp
    then show False using notin by auto
  qed
  then show ?thesis by (auto simp: filter_empty_conv)
qed

lemma resolution_nothing_to_do:
  assumes "filter (\<lambda>f. f_envelopeId f = E \<and> f_autosign f \<and> \<not> f_inserted f) (fieldRows w) = []"
  shows "bindM (findAutoSignFields E)
              (\<lambda>autoSignFields.
                 bindM (autoSignFieldLoop E md autoSignFields []) (forEachM markStep)) w
            = (Inr (), w)"
  using assms by (simp add: findAutoSignFields_def bindM_def returnM_def)

lemma sendAutoSign_idempotent:
  assumes "sendAutoSign ext envelope ers rm w = (Inr u, w')"
  shows "sendAutoSign ext2 envelope ers2 rm2 w' = (Inr (), w')"
  unfolding sendAutoSign_alt
  by (rule resolution_nothing_to_do,
      rule resolution_leaves_none[OF assms[unfolded sendAutoSign_alt]])
     (rule sendMark_fields)

lemma completeAutoSign_idempotent:
  assumes "completeAutoSign ext envelope rm w = (Inr u, w')"
  shows "completeAutoSign ext2 envelope rm2 w' = (Inr (), w')"
  unfolding completeAutoSign_def
  by (rule resolution_nothing_to_do,
      rule resolution_leaves_none[OF assms[unfolded completeAutoSign_def]])
     (rule completeMark_fields)

lemma respects_select:
  assumes "frame RS (pendingAutoSignIds E w0) PA w0 w" and "f \<in> set (fieldRows w)"
    and "f_envelopeId f = E" and "f_autosign f" and "\<not> f_inserted f"
  shows "f_id f \<in> pendingAutoSignIds E w0 \<and> f_recipientId f \<in> UNIV"
proof -
  from frame_field_origin[OF assms(1,2)] obtain f0 where
    f0: "f0 \<in> set (fieldRows w0)" "fieldKept (pendingAutoSignIds E w0) f0 f" by blast
  then have k: "f_envelopeId f0 = E \<and> f_autosign f0 \<and> \<not> f_inserted f0" and i: "f_id f = f_id f0"
    using assms(3-5) by (auto simp: fieldKept_def)
  have "f_id f0 \<in> pendingAutoSignIds E w0"
    unfolding pendingAutoSignIds_def using f0(1) k by blast
  then show ?thesis using i by simp
qed

lemma respects_entry:
  "fieldInsertedEntry a \<Longrightarrow> completionOf RS a"
  by (auto simp: fieldInsertedEntry_def completionOf_def split: AuditData.splits)

lemma respects_completeMark:
  "keeps (frame (unsignedIds w0) FS (completionOf (unsignedIds w0)) w0)
     (completeMarkRecipient ext envelope rm rid)"
proof (rule frame_completeMarkRecipient)
  fix w r
  assume w: "frame (unsignedIds w0) FS (completionOf (unsignedIds w0)) w0 w"
    and f: "find (\<lambda>r. r_id r = rid) (recipients w) = Some r"
    and ns: "r_signingStatus r \<noteq> SIGNED"
  from f have r: "r \<in> set (recipients w)" "r_id r = rid"
    by (auto simp: find_Some_iff)
  from frame_recipient_origin[OF w r(1)] obtain r0 where
    r0: "r0 \<in> set (recipients w0)" "recipientKept (unsignedIds w0) r0 r" by blast
  have "rid \<in> unsignedIds w0"
  proof (rule ccontr)
    assume n: "rid \<notin> unsignedIds w0"
    then have "r = r0" using r0(2) r(2) by (auto simp: recipientKept_def)
    then have "rid \<in> unsignedIds w0" using r0(1) ns r(2) by (force simp: unsignedIds_def)
    then show False using n by simp
  qed
  then show "rid \<in> unsignedIds w0
      \<and> completionOf (unsignedIds w0)
          (autoCompletedAuditLog (e_id envelope) (autoSignMetadataComplete rm) r)"
    using r(2) by (simp add: completionOf_def autoCompletedAuditLog_def)
qed

lemma respects_sendMark:
  assumes "set ers \<subseteq> set (recipients w0)"
  shows "keeps (frame (unsignedIds w0) FS (completionOf (unsignedIds w0)) w0)
     (sendMarkRecipient ext envelope ers rm rid)"
proof (rule frame_sendMarkRecipient)
  fix r
  assume f: "find (\<lambda>r. r_id r = rid) ers = Some r" and ns: "r_signingStatus r \<noteq> SIGNED"
  from f have r: "r \<in> set ers" "r_id r = rid"
    by (auto simp: find_Some_iff)
  then have "rid \<in> unsignedIds w0" using assms ns by (force simp: unsignedIds_def)
  then show "rid \<in> unsignedIds w0
      \<and> completionOf (unsignedIds w0)
          (autoCompletedAuditLog (e_id envelope) (autoSignMetadataSend rm) r)"
    using r(2) by (simp add: completionOf_def autoCompletedAuditLog_def)
qed

lemma frame_respects:
  assumes fr: "frame (unsignedIds w) (pendingAutoSignIds E w) (completionOf (unsignedIds w)) w w'"
    and dr: "distinct (map r_id (recipients w))" and df: "distinct (map f_id (fieldRows w))"
  shows "resolutionRespects E w w'"
proof -
  have ir: "inj_on r_id (set (recipients w))" and "inj_on f_id (set (fieldRows w))"
    using dr df by (simp_all add: distinct_map)
  note inj = this
  have 1: "list_all2 (\<lambda>r0 r. r_signingStatus r0 = SIGNED \<longrightarrow> r = r0) (recipients w) (recipients w')"
  proof (rule list.rel_mono_strong[of "recipientKept (unsignedIds w)"])
    show "list_all2 (recipientKept (unsignedIds w)) (recipients w) (recipients w')"
      using fr by (simp add: frame_def)
  next
    fix r0 r assume a: "r0 \<in> set (recipients w)" "recipientKept (unsignedIds w) r0 r"
    show "r_signingStatus r0 = SIGNED \<longrightarrow> r = r0"
    proof
      assume s: "r_signingStatus r0 = SIGNED"
      have "r_id r0 \<notin> unsignedIds w"
      proof
        assume "r_id r0 \<in> unsignedIds w"
        then obtain r1 where "r1 \<in> set (recipients w)" "r_signingStatus r1 \<noteq> SIGNED"
          "r_id r1 = r_id r0" by (auto simp: unsignedIds_def)
        then show False using inj(1) a(1) s by (auto dest: inj_onD)
      qed
      then show "r = r0" using a(2) by (simp add: recipientKept_def)
    qed
  qed
  have 2: "list_all2 (\<lambda>f0 f. f_inserted f0 \<longrightarrow> f = f0) (fieldRows w) (fieldRows w')"
  proof (rule list.rel_mono_strong[of "fieldKept (pendingAutoSignIds E w)"])
    show "list_all2 (fieldKept (pendingAutoSignIds E w)) (fieldRows w) (fieldRows w')"
      using fr by (simp add: frame_def)
  next
    fix f0 f assume a: "f0 \<in> set (fieldRows w)" "fieldKept (pendingAutoSignIds E w) f0 f"
    show "f_inserted f0 \<longrightarrow> f = f0"
    proof
      assume s: "f_inserted f0"
      have "f_id f0 \<notin> pendingAutoSignIds E w"
      proof
        assume "f_id f0 \<in> pendingAutoSignIds E w"
        then obtain f1 where "f1 \<in> set (fieldRows w)" "\<not> f_inserted f1"
          "f_id f1 = f_id f0" by (auto simp: pendingAutoSignIds_def)
        then show False using inj(2) a(1) s by (auto dest: inj_onD)
      qed
      then show "f = f0" using a(2) by (simp add: fieldKept_def)
    qed
  qed
  show ?thesis using 1 2 fr by (simp add: resolutionRespects_def frame_def)
qed

lemma completeAutoSign_respects:
  assumes "distinct (map r_id (recipients w))" and "distinct (map f_id (fieldRows w))"
  shows "resolutionRespects (e_id envelope) w (snd (completeAutoSign ext envelope rm w))"
proof -
  have "keeps (frame (unsignedIds w) (pendingAutoSignIds (e_id envelope) w)
                 (completionOf (unsignedIds w)) w)
          (completeAutoSign ext envelope rm)"
  proof (rule frame_completeAutoSign[where RFS = UNIV])
    show "f_id f \<in> pendingAutoSignIds (e_id envelope) w \<and> f_recipientId f \<in> UNIV"
      if "frame (unsignedIds w) (pendingAutoSignIds (e_id envelope) w)
            (completionOf (unsignedIds w)) w wa"
        "f \<in> set (fieldRows wa)" "f_envelopeId f = e_id envelope" "f_autosign f"
        "\<not> f_inserted f" for wa f
      using that by (rule respects_select)
  qed (auto intro: respects_entry respects_completeMark)
  from frame_respects[OF keepsD[OF this frame_refl] assms] show ?thesis .
qed

lemma sendAutoSign_respects:
  assumes "distinct (map r_id (recipients w))" and "distinct (map f_id (fieldRows w))"
    and "set ers \<subseteq> set (recipients w)"
  shows "resolutionRespects (e_id envelope) w (snd (sendAutoSign ext envelope ers rm w))"
proof -
  have "keeps (frame (unsignedIds w) (pendingAutoSignIds (e_id envelope) w)
                 (completionOf (unsignedIds w)) w)
          (sendAutoSign ext envelope ers rm)"
  proof (rule frame_sendAutoSign[where RFS = UNIV])
    show "f_id f \<in> pendingAutoSignIds (e_id envelope) w \<and> f_recipientId f \<in> UNIV"
      if "frame (unsignedIds w) (pendingAutoSignIds (e_id envelope) w)
            (completionOf (unsignedIds w)) w wa"
        "f \<in> set (fieldRows wa)" "f_envelopeId f = e_id envelope" "f_autosign f"
        "\<not> f_inserted f" for wa f
      using that by (rule respects_select)
  qed (auto intro: respects_entry respects_sendMark[OF assms(3)])
  from frame_respects[OF keepsD[OF this frame_refl] assms(1,2)] show ?thesis .
qed

text \<open>
  Claim C2.  Auto-sign resolution is idempotent.  Run again on the state left by a
  resolution that returned (by either operation, with any request metadata), the
  resolution returns and leaves the state exactly as it found it: it selects no field, so
  it creates no signature, writes no audit entry and marks no recipient.  And in any run,
  on a state with unique recipient and field identifiers, every recipient that was SIGNED
  and every field that was inserted keeps its row unchanged, the signatures added are for
  the selected fields (auto-sign, not inserted, of this envelope) only, and a
  RECIPIENT_COMPLETED entry is added only for a recipient that was not SIGNED.
\<close>

theorem autoSign_resolution_idempotent:
  "(\<forall>u w'. sendAutoSign ext envelope ers rm w = (Inr u, w') \<longrightarrow>
       sendAutoSign ext' envelope ers' rm' w' = (Inr (), w'))
   \<and> (\<forall>u w'. completeAutoSign ext envelope crm w = (Inr u, w') \<longrightarrow>
       completeAutoSign ext' envelope crm' w' = (Inr (), w'))
   \<and> (distinct (map r_id (recipients w)) \<and> distinct (map f_id (fieldRows w)) \<longrightarrow>
        (set ers \<subseteq> set (recipients w) \<longrightarrow>
           resolutionRespects (e_id envelope) w (snd (sendAutoSign ext envelope ers rm w)))
        \<and> resolutionRespects (e_id envelope) w (snd (completeAutoSign ext envelope crm w)))"
proof (intro conjI allI impI)
  fix u w' assume "sendAutoSign ext envelope ers rm w = (Inr u, w')"
  then show "sendAutoSign ext' envelope ers' rm' w' = (Inr (), w')"
    by (rule sendAutoSign_idempotent)
next
  fix u w' assume "completeAutoSign ext envelope crm w = (Inr u, w')"
  then show "completeAutoSign ext' envelope crm' w' = (Inr (), w')"
    by (rule completeAutoSign_idempotent)
next
  assume "distinct (map r_id (recipients w)) \<and> distinct (map f_id (fieldRows w))"
    and "set ers \<subseteq> set (recipients w)"
  then show "resolutionRespects (e_id envelope) w (snd (sendAutoSign ext envelope ers rm w))"
    by (intro sendAutoSign_respects) simp_all
next
  assume "distinct (map r_id (recipients w)) \<and> distinct (map f_id (fieldRows w))"
  then show "resolutionRespects (e_id envelope) w (snd (completeAutoSign ext envelope crm w))"
    by (intro completeAutoSign_respects) simp_all
qed

theorem autoSign_resolution_idempotent_witness:
  "fst (completeAutoSign exampleExternals (exampleEnvelope PENDING PARALLEL) None
          exampleTwoEnvelopes) = Inr ()
   \<and> map f_inserted (fieldRows (snd (completeAutoSign exampleExternals
          (exampleEnvelope PENDING PARALLEL) None exampleTwoEnvelopes))) = [True, True, False]
   \<and> map r_signingStatus (recipients (snd (completeAutoSign exampleExternals
          (exampleEnvelope PENDING PARALLEL) None exampleTwoEnvelopes)))
       = [NOT_SIGNED, SIGNED, NOT_SIGNED]
   \<and> length (signatures (snd (completeAutoSign exampleExternals
          (exampleEnvelope PENDING PARALLEL) None exampleTwoEnvelopes))) = 1
   \<and> length (auditLogs (snd (completeAutoSign exampleExternals
          (exampleEnvelope PENDING PARALLEL) None exampleTwoEnvelopes))) = 2
   \<and> completeAutoSign exampleExternals (exampleEnvelope PENDING PARALLEL) None
        (snd (completeAutoSign exampleExternals (exampleEnvelope PENDING PARALLEL) None
                exampleTwoEnvelopes))
       = (Inr (), snd (completeAutoSign exampleExternals (exampleEnvelope PENDING PARALLEL) None
                         exampleTwoEnvelopes))
   \<and> fst (sendAutoSign exampleExternals (exampleEnvelope PENDING PARALLEL)
            (filter (\<lambda>r. r_envelopeId r = ''env1'') (recipients exampleTwoEnvelopes))
            (sd_requestMetadata exampleSendOptions) exampleTwoEnvelopes) = Inr ()
   \<and> sendAutoSign exampleExternals (exampleEnvelope PENDING PARALLEL)
        (filter (\<lambda>r. r_envelopeId r = ''env1'') (recipients exampleTwoEnvelopes))
        (sd_requestMetadata exampleSendOptions)
        (snd (sendAutoSign exampleExternals (exampleEnvelope PENDING PARALLEL)
            (filter (\<lambda>r. r_envelopeId r = ''env1'') (recipients exampleTwoEnvelopes))
            (sd_requestMetadata exampleSendOptions) exampleTwoEnvelopes))
       = (Inr (), snd (sendAutoSign exampleExternals (exampleEnvelope PENDING PARALLEL)
            (filter (\<lambda>r. r_envelopeId r = ''env1'') (recipients exampleTwoEnvelopes))
            (sd_requestMetadata exampleSendOptions) exampleTwoEnvelopes))
   \<and> resolutionRespects (e_id (exampleEnvelope PENDING PARALLEL)) exampleTwoEnvelopes
        (snd (sendAutoSign exampleExternals (exampleEnvelope PENDING PARALLEL)
            (filter (\<lambda>r. r_envelopeId r = ''env1'') (recipients exampleTwoEnvelopes))
            (sd_requestMetadata exampleSendOptions) exampleTwoEnvelopes))
   \<and> resolutionRespects (e_id (exampleEnvelope PENDING PARALLEL)) exampleTwoEnvelopes
        (snd (completeAutoSign exampleExternals (exampleEnvelope PENDING PARALLEL) None
                exampleTwoEnvelopes))"
proof -
  note t = autoSign_resolution_idempotent
      [where ext = exampleExternals and ext' = exampleExternals
         and envelope = "exampleEnvelope PENDING PARALLEL"
         and ers = "filter (\<lambda>r. r_envelopeId r = ''env1'') (recipients exampleTwoEnvelopes)"
         and ers' = "filter (\<lambda>r. r_envelopeId r = ''env1'') (recipients exampleTwoEnvelopes)"
         and rm = "sd_requestMetadata exampleSendOptions"
         and rm' = "sd_requestMetadata exampleSendOptions"
         and crm = None and crm' = None and w = exampleTwoEnvelopes]
  have c: "fst (completeAutoSign exampleExternals (exampleEnvelope PENDING PARALLEL) None
          exampleTwoEnvelopes) = Inr ()"
    by code_simp
  then have crun: "completeAutoSign exampleExternals (exampleEnvelope PENDING PARALLEL) None
          exampleTwoEnvelopes
        = (Inr (), snd (completeAutoSign exampleExternals (exampleEnvelope PENDING PARALLEL) None
          exampleTwoEnvelopes))"
    by (metis prod.collapse)
  have s: "fst (sendAutoSign exampleExternals (exampleEnvelope PENDING PARALLEL)
            (filter (\<lambda>r. r_envelopeId r = ''env1'') (recipients exampleTwoEnvelopes))
            (sd_requestMetadata exampleSendOptions) exampleTwoEnvelopes) = Inr ()"
    by code_simp
  then have srun: "sendAutoSign exampleExternals (exampleEnvelope PENDING PARALLEL)
            (filter (\<lambda>r. r_envelopeId r = ''env1'') (recipients exampleTwoEnvelopes))
            (sd_requestMetadata exampleSendOptions) exampleTwoEnvelopes
        = (Inr (), snd (sendAutoSign exampleExternals (exampleEnvelope PENDING PARALLEL)
            (filter (\<lambda>r. r_envelopeId r = ''env1'') (recipients exampleTwoEnvelopes))
            (sd_requestMetadata exampleSendOptions) exampleTwoEnvelopes))"
    by (metis prod.collapse)
  have f: "map f_inserted (fieldRows (snd (completeAutoSign exampleExternals
          (exampleEnvelope PENDING PARALLEL) None exampleTwoEnvelopes))) = [True, True, False]"
    by code_simp
  have r: "map r_signingStatus (recipients (snd (completeAutoSign exampleExternals
          (exampleEnvelope PENDING PARALLEL) None exampleTwoEnvelopes)))
       = [NOT_SIGNED, SIGNED, NOT_SIGNED]"
    by code_simp
  have n: "length (signatures (snd (completeAutoSign exampleExternals
          (exampleEnvelope PENDING PARALLEL) None exampleTwoEnvelopes))) = 1"
    by code_simp
  have a: "length (auditLogs (snd (completeAutoSign exampleExternals
          (exampleEnvelope PENDING PARALLEL) None exampleTwoEnvelopes))) = 2"
    by code_simp
  have d: "distinct (map r_id (recipients exampleTwoEnvelopes))
           \<and> distinct (map f_id (fieldRows exampleTwoEnvelopes))"
    by code_simp
  have sub: "set (filter (\<lambda>r. r_envelopeId r = ''env1'') (recipients exampleTwoEnvelopes))
             \<subseteq> set (recipients exampleTwoEnvelopes)"
    by (rule filter_is_subset)
  have cidem: "completeAutoSign exampleExternals (exampleEnvelope PENDING PARALLEL) None
        (snd (completeAutoSign exampleExternals (exampleEnvelope PENDING PARALLEL) None
                exampleTwoEnvelopes))
       = (Inr (), snd (completeAutoSign exampleExternals (exampleEnvelope PENDING PARALLEL) None
                         exampleTwoEnvelopes))"
    using t crun by blast
  have sidem: "sendAutoSign exampleExternals (exampleEnvelope PENDING PARALLEL)
        (filter (\<lambda>r. r_envelopeId r = ''env1'') (recipients exampleTwoEnvelopes))
        (sd_requestMetadata exampleSendOptions)
        (snd (sendAutoSign exampleExternals (exampleEnvelope PENDING PARALLEL)
            (filter (\<lambda>r. r_envelopeId r = ''env1'') (recipients exampleTwoEnvelopes))
            (sd_requestMetadata exampleSendOptions) exampleTwoEnvelopes))
       = (Inr (), snd (sendAutoSign exampleExternals (exampleEnvelope PENDING PARALLEL)
            (filter (\<lambda>r. r_envelopeId r = ''env1'') (recipients exampleTwoEnvelopes))
            (sd_requestMetadata exampleSendOptions) exampleTwoEnvelopes))"
    using t srun by blast
  have resp: "resolutionRespects (e_id (exampleEnvelope PENDING PARALLEL)) exampleTwoEnvelopes
        (snd (sendAutoSign exampleExternals (exampleEnvelope PENDING PARALLEL)
            (filter (\<lambda>r. r_envelopeId r = ''env1'') (recipients exampleTwoEnvelopes))
            (sd_requestMetadata exampleSendOptions) exampleTwoEnvelopes))"
    "resolutionRespects (e_id (exampleEnvelope PENDING PARALLEL)) exampleTwoEnvelopes
        (snd (completeAutoSign exampleExternals (exampleEnvelope PENDING PARALLEL) None
                exampleTwoEnvelopes))"
    using t d sub by blast+
  show ?thesis
    by (intro conjI c f r n a cidem s sidem resp)
qed

section \<open>What completeDocumentWithToken leaves alone\<close>

lemma own_recipient:
  assumes "frame (ownRecipientIds E w0) FS PA w0 w" and "r \<in> set (recipients w)"
    and "r_envelopeId r = E"
  shows "r_id r \<in> ownRecipientIds E w0"
proof -
  from frame_recipient_origin[OF assms(1,2)] obtain r0 where
    r0: "r0 \<in> set (recipients w0)" "recipientKept (ownRecipientIds E w0) r0 r" by blast
  then have "r_envelopeId r0 = E" and i: "r_id r = r_id r0"
    using assms(3) by (auto simp: recipientKept_def)
  then have "r_id r0 \<in> ownRecipientIds E w0"
    unfolding ownRecipientIds_def using r0(1) by blast
  then show ?thesis using i by simp
qed

lemma own_select:
  assumes "frame RS (ownFieldIds E w0) PA w0 w" and "f \<in> set (fieldRows w)"
    and "f_envelopeId f = E"
  shows "f_id f \<in> ownFieldIds E w0 \<and> f_recipientId f \<in> fieldRecipientIds E w0"
proof -
  from frame_field_origin[OF assms(1,2)] obtain f0 where
    f0: "f0 \<in> set (fieldRows w0)" "fieldKept (ownFieldIds E w0) f0 f" by blast
  then have k: "f_envelopeId f0 = E" and i: "f_id f = f_id f0" "f_recipientId f = f_recipientId f0"
    using assms(3) by (auto simp: fieldKept_def)
  have "f_id f0 \<in> ownFieldIds E w0" "f_recipientId f0 \<in> fieldRecipientIds E w0"
    unfolding ownFieldIds_def fieldRecipientIds_def using f0(1) k by blast+
  then show ?thesis using i by simp
qed

lemma own_completeMark:
  assumes wk: "wellKeyed w0" and rid: "rid \<in> fieldRecipientIds (e_id envelope) w0"
  shows "keeps (frame (ownRecipientIds (e_id envelope) w0) FS (\<lambda>a. a_envelopeId a = e_id envelope) w0)
     (completeMarkRecipient ext envelope rm rid)"
proof (rule frame_completeMarkRecipient)
  fix w r
  assume w: "frame (ownRecipientIds (e_id envelope) w0) FS (\<lambda>a. a_envelopeId a = e_id envelope) w0 w"
    and f: "find (\<lambda>r. r_id r = rid) (recipients w) = Some r"
  from f have r: "r \<in> set (recipients w)" "r_id r = rid"
    by (auto simp: find_Some_iff)
  from frame_recipient_origin[OF w r(1)] obtain r0 where
    r0: "r0 \<in> set (recipients w0)" "recipientKept (ownRecipientIds (e_id envelope) w0) r0 r"
    by blast
  from rid obtain f0 where f0: "f0 \<in> set (fieldRows w0)" "f_envelopeId f0 = e_id envelope"
    "f_recipientId f0 = rid" by (auto simp: fieldRecipientIds_def)
  have "r_id r0 = rid" using r0(2) r(2) by (simp add: recipientKept_def)
  then have "r_envelopeId r0 = e_id envelope"
    using wk f0 r0(1) by (auto simp: wellKeyed_def list_all_iff)
  then have "r_id r0 \<in> ownRecipientIds (e_id envelope) w0"
    unfolding ownRecipientIds_def using r0(1) by blast
  then show "rid \<in> ownRecipientIds (e_id envelope) w0
      \<and> a_envelopeId (autoCompletedAuditLog (e_id envelope) (autoSignMetadataComplete rm) r)
          = e_id envelope"
    using \<open>r_id r0 = rid\<close> by (simp add: autoCompletedAuditLog_def)
qed

lemma own_completeAutoSign:
  assumes "wellKeyed w0"
  shows "keeps (frame (ownRecipientIds (e_id envelope) w0) (ownFieldIds (e_id envelope) w0)
                  (\<lambda>a. a_envelopeId a = e_id envelope) w0)
     (completeAutoSign ext envelope rm)"
proof (rule frame_completeAutoSign[where RFS = "fieldRecipientIds (e_id envelope) w0"])
  show "f_id f \<in> ownFieldIds (e_id envelope) w0
        \<and> f_recipientId f \<in> fieldRecipientIds (e_id envelope) w0"
    if "frame (ownRecipientIds (e_id envelope) w0) (ownFieldIds (e_id envelope) w0)
          (\<lambda>a. a_envelopeId a = e_id envelope) w0 w"
      "f \<in> set (fieldRows w)" "f_envelopeId f = e_id envelope" for w f
    using that by (rule own_select)
qed (auto intro: own_completeMark[OF assms] simp: autoSignEntry_def)

lemma own_completeTransactionBody:
  assumes wk: "wellKeyed w0" and r: "r_id recipient \<in> ownRecipientIds (e_id envelope) w0"
  shows "keeps (frame (ownRecipientIds (e_id envelope) w0) (ownFieldIds (e_id envelope) w0)
                  (\<lambda>a. a_envelopeId a = e_id envelope) w0)
     (completeTransactionBody ext opts envelope recipient)"
  unfolding completeTransactionBody_def Let_def
  apply (intro keeps_bindM frame_markSigned frame_createAuditLog r)
   apply (simp add: completedAuditLog_def)
  using keepsD[OF own_completeAutoSign[OF wk]]
  by (auto simp: keeps_def)

lemma own_completeAccessAuth:
  "keeps (frame RS FS (\<lambda>a. a_envelopeId a = e_id envelope) w0)
     (completeAccessAuth ext opts envelope recipient)"
  unfolding completeAccessAuth_def
  by (auto intro!: keeps_bindM keeps_returnM keeps_throwM frame_createAuditLog
      split: option.splits)

lemma own_advanceTransactionBody:
  assumes "r_id nextRecipient \<in> RS"
  shows "keeps (frame RS FS (\<lambda>a. a_envelopeId a = e_id envelope) w0)
     (advanceTransactionBody ext opts envelope recipient nextRecipient)"
  unfolding advanceTransactionBody_def
  by (auto intro!: keeps_bindM keeps_returnM frame_createAuditLog frame_triggerJob
      frame_updateRecipient assms split: option.splits)

lemma own_completeAdvance:
  "keeps (frame (ownRecipientIds (e_id envelope) w0) FS (\<lambda>a. a_envelopeId a = e_id envelope) w0)
     (completeAdvance ext opts envelope recipient)"
proof (rule keepsI)
  fix w
  assume w: "frame (ownRecipientIds (e_id envelope) w0) FS
               (\<lambda>a. a_envelopeId a = e_id envelope) w0 w"
  let ?pending = "orderRecipients
              (filter (\<lambda>r. r_envelopeId r = e_id envelope \<and> r_signingStatus r \<noteq> SIGNED
                          \<and> r_role r \<noteq> CC) (recipients w))"
  show "frame (ownRecipientIds (e_id envelope) w0) FS (\<lambda>a. a_envelopeId a = e_id envelope) w0
          (snd (completeAdvance ext opts envelope recipient w))"
  proof (cases ?pending)
    case Nil
    then have "filter (\<lambda>r. r_envelopeId r = e_id envelope \<and> r_signingStatus r \<noteq> SIGNED
                          \<and> r_role r \<noteq> CC) (recipients w) = []" by simp
    then show ?thesis using w by (simp add: completeAdvance_def orderRecipients_def)
  next
    case (Cons nextRecipient rest)
    then have "nextRecipient \<in> set ?pending" by simp
    then have "nextRecipient \<in> set (recipients w)" "r_envelopeId nextRecipient = e_id envelope"
      by auto
    then have n: "r_id nextRecipient \<in> ownRecipientIds (e_id envelope) w0"
      using own_recipient[OF w] by blast
    have "keeps (frame (ownRecipientIds (e_id envelope) w0) FS
                   (\<lambda>a. a_envelopeId a = e_id envelope) w0)
            (bindM (sendPendingEmail (o_id opts) (r_id recipient))
               (\<lambda>_. if envelopeSigningOrder envelope = Some SEQUENTIAL
                     then transaction
                            (advanceTransactionBody ext opts envelope recipient nextRecipient)
                     else returnM ()))"
      by (intro keeps_bindM keeps_if keeps_returnM frame_sendPendingEmail frame_transaction
          own_advanceTransactionBody n)
    from keepsD[OF this w] show ?thesis using Cons by (simp add: completeAdvance_def)
  qed
qed

lemma own_completeFinish:
  "keeps (frame RS FS PA w0) (completeFinish ext opts envelope)"
  unfolding completeFinish_def
  apply (intro keeps_bindM keeps_findEnvelopeWithRecipients frame_triggerWebhook)
  using frame_triggerJob by (auto simp: keeps_def)

lemma completeChecks_Inr:
  assumes "completeChecks ext opts w = (Inr (envelope, recipient), w')"
  shows "findEnvelopeByToken ext opts w = Some envelope \<and> e_status envelope = PENDING
       \<and> envelope \<in> set (envelopes w) \<and> recipient \<in> set (recipients w)
       \<and> r_envelopeId recipient = e_id envelope"
proof -
  from assms have e: "findEnvelopeByToken ext opts w = Some envelope" "e_status envelope = PENDING"
    by (auto simp: completeChecks_def split: option.splits list.splits if_splits)
  from assms e obtain rest where
    "recipientsWithToken envelope (o_token opts) w = recipient # rest"
    by (auto simp: completeChecks_def split: option.splits list.splits if_splits)
  then have "recipient \<in> set (recipientsWithToken envelope (o_token opts) w)" by simp
  then have "recipient \<in> set (recipients w) \<and> r_envelopeId recipient = e_id envelope"
    by (simp add: recipientsWithToken_def)
  moreover have "envelope \<in> set (envelopes w)"
    using e(1) by (auto simp: findEnvelopeByToken_def find_Some_iff)
  ultimately show ?thesis using e by simp
qed

lemma own_confined:
  assumes fr: "frame (ownRecipientIds E w) (ownFieldIds E w) (\<lambda>a. a_envelopeId a = E) w w'"
    and wk: "wellKeyed w"
  shows "confinedTo E w w'"
proof -
  have inj: "inj_on r_id (set (recipients w))" "inj_on f_id (set (fieldRows w))"
    using wk by (simp_all add: wellKeyed_def distinct_map)
  have 1: "list_all2 (\<lambda>r0 r. r_envelopeId r0 \<noteq> E \<longrightarrow> r = r0) (recipients w) (recipients w')"
  proof (rule list.rel_mono_strong[of "recipientKept (ownRecipientIds E w)"])
    show "list_all2 (recipientKept (ownRecipientIds E w)) (recipients w) (recipients w')"
      using fr by (simp add: frame_def)
  next
    fix r0 r assume a: "r0 \<in> set (recipients w)" "recipientKept (ownRecipientIds E w) r0 r"
    show "r_envelopeId r0 \<noteq> E \<longrightarrow> r = r0"
    proof
      assume s: "r_envelopeId r0 \<noteq> E"
      have "r_id r0 \<notin> ownRecipientIds E w"
      proof
        assume "r_id r0 \<in> ownRecipientIds E w"
        then obtain r1 where "r1 \<in> set (recipients w)" "r_envelopeId r1 = E"
          "r_id r1 = r_id r0" by (auto simp: ownRecipientIds_def)
        then show False using inj(1) a(1) s by (auto dest: inj_onD)
      qed
      then show "r = r0" using a(2) by (simp add: recipientKept_def)
    qed
  qed
  have 2: "list_all2 (\<lambda>f0 f. f_envelopeId f0 \<noteq> E \<longrightarrow> f = f0) (fieldRows w) (fieldRows w')"
  proof (rule list.rel_mono_strong[of "fieldKept (ownFieldIds E w)"])
    show "list_all2 (fieldKept (ownFieldIds E w)) (fieldRows w) (fieldRows w')"
      using fr by (simp add: frame_def)
  next
    fix f0 f assume a: "f0 \<in> set (fieldRows w)" "fieldKept (ownFieldIds E w) f0 f"
    show "f_envelopeId f0 \<noteq> E \<longrightarrow> f = f0"
    proof
      assume s: "f_envelopeId f0 \<noteq> E"
      have "f_id f0 \<notin> ownFieldIds E w"
      proof
        assume "f_id f0 \<in> ownFieldIds E w"
        then obtain f1 where "f1 \<in> set (fieldRows w)" "f_envelopeId f1 = E"
          "f_id f1 = f_id f0" by (auto simp: ownFieldIds_def)
        then show False using inj(2) a(1) s by (auto dest: inj_onD)
      qed
      then show "f = f0" using a(2) by (simp add: fieldKept_def)
    qed
  qed
  show ?thesis using 1 2 fr by (simp add: confinedTo_def frame_def)
qed

lemma own_completeSteps:
  assumes wk: "wellKeyed w0" and r: "r_id recipient \<in> ownRecipientIds (e_id envelope) w0"
  shows "keeps (frame (ownRecipientIds (e_id envelope) w0) (ownFieldIds (e_id envelope) w0)
                  (\<lambda>a. a_envelopeId a = e_id envelope) w0)
     (bindM (bindM (completeAccessAuth ext opts envelope recipient)
                   (\<lambda>_. bindM (transaction (completeTransactionBody ext opts envelope recipient))
                   (\<lambda>_. bindM (triggerJob (send_recipient_signed_email
                                  (mapSecondaryIdToDocumentId ext (e_secondaryId envelope))
                                  (r_id recipient)))
                   (\<lambda>_. completeAdvance ext opts envelope recipient))))
       (\<lambda>_. completeFinish ext opts envelope))"
  by (intro keeps_bindM own_completeAccessAuth frame_transaction own_completeTransactionBody
      frame_triggerJob own_completeAdvance own_completeFinish wk r)

lemma completeDocumentWithToken_frame:
  assumes wk: "wellKeyed w" and e: "findEnvelopeByToken ext opts w = Some envelope"
  shows "confinedTo (e_id envelope) w (snd (completeDocumentWithToken ext opts w))"
proof (cases rule: completeChecks_cases[of ext opts w])
  case (fail e)
  then show ?thesis
    using own_confined[OF frame_refl wk] by (simp add: completeChecks_fail)
next
  case (pass envelope' recipient)
  from completeChecks_Inr[OF pass] e have eq: "envelope' = envelope"
    and r: "recipient \<in> set (recipients w)" "r_envelopeId recipient = e_id envelope"
    by simp_all
  have "r_id recipient \<in> ownRecipientIds (e_id envelope) w"
    unfolding ownRecipientIds_def using r by blast
  from keepsD[OF own_completeSteps[OF wk this] frame_refl]
  show ?thesis
    using pass eq by (simp add: completeDocumentWithToken_after_checks own_confined[OF _ wk])
qed

lemma sameEnvelopes_effects:
  "keeps (sameEnvelopes w0) (triggerJob j)"
  "keeps (sameEnvelopes w0) (sendPendingEmail i r)"
  "keeps (sameEnvelopes w0) (triggerWebhook h)"
  by (simp_all add: keeps_def sameEnvelopes_def triggerJob_def sendPendingEmail_def
      triggerWebhook_def)

lemma sameEnvelopes_completeFinish:
  "keeps (sameEnvelopes w0) (completeFinish ext opts envelope)"
  unfolding completeFinish_def
  apply (intro keeps_bindM keeps_findEnvelopeWithRecipients sameEnvelopes_effects)
  using sameEnvelopes_effects(1) by (auto simp: keeps_def)

lemma completeDocumentWithToken_envelopes:
  "sameEnvelopes w (snd (completeDocumentWithToken ext opts w))"
proof (cases rule: completeChecks_cases[of ext opts w])
  case (fail e)
  then show ?thesis by (simp add: completeChecks_fail sameEnvelopes_def)
next
  case (pass envelope recipient)
  have "keeps (sameEnvelopes w)
     (bindM (bindM (completeAccessAuth ext opts envelope recipient)
                   (\<lambda>_. bindM (transaction (completeTransactionBody ext opts envelope recipient))
                   (\<lambda>_. bindM (triggerJob (send_recipient_signed_email
                                  (mapSecondaryIdToDocumentId ext (e_secondaryId envelope))
                                  (r_id recipient)))
                   (\<lambda>_. completeAdvance ext opts envelope recipient))))
       (\<lambda>_. completeFinish ext opts envelope))"
    by (intro keeps_bindM tolerant_completeAccessAuth[OF tolerant_sameEnvelopes]
      tolerant_transaction[OF tolerant_sameEnvelopes]
      tolerant_completeTransactionBody[OF tolerant_sameEnvelopes]
      tolerant_completeAdvance[OF tolerant_sameEnvelopes]
      sameEnvelopes_effects sameEnvelopes_completeFinish) simp_all
  from keepsD[OF this] show ?thesis
    using pass by (simp add: completeDocumentWithToken_after_checks sameEnvelopes_def)
qed

lemma completeDocumentWithToken_Inr:
  assumes "completeDocumentWithToken ext opts w = (Inr u, w')"
  shows "\<exists>envelope. findEnvelopeByToken ext opts w = Some envelope
           \<and> envelope \<in> set (envelopes w) \<and> e_status envelope = PENDING"
proof (cases rule: completeChecks_cases[of ext opts w])
  case (fail e)
  then show ?thesis using assms by (simp add: completeChecks_fail)
next
  case (pass envelope recipient)
  from completeChecks_Inr[OF pass] show ?thesis by blast
qed

lemma completeDocumentWithToken_None:
  assumes "findEnvelopeByToken ext opts w = None"
  shows "completeDocumentWithToken ext opts w = (Inl PrismaNotFoundError, w)"
  by (rule completeChecks_fail) (simp add: completeChecks_def assms)

text \<open>
  Claim C10.  \<open>completeDocumentWithToken\<close> writes no envelope row: whatever the call does,
  the envelopes and envelope items are those of the initial state, and a call that returns
  has found a PENDING envelope which is still there, PENDING, in the final state.  Its
  writes are confined: a call that finds no envelope changes nothing, and on a state with
  unique keys whose fields belong to recipients of their own envelope, every recipient and
  field row of another envelope is unchanged, every added signature is for a field of the
  envelope found and every added audit entry carries its identifier.
\<close>

theorem completeDocumentWithToken_confined_to_envelope:
  "envelopes (snd (completeDocumentWithToken ext opts w)) = envelopes w
   \<and> envelopeItems (snd (completeDocumentWithToken ext opts w)) = envelopeItems w
   \<and> (\<forall>u w'. completeDocumentWithToken ext opts w = (Inr u, w') \<longrightarrow>
         (\<exists>envelope. findEnvelopeByToken ext opts w = Some envelope
              \<and> envelope \<in> set (envelopes w') \<and> e_status envelope = PENDING))
   \<and> (findEnvelopeByToken ext opts w = None \<longrightarrow>
         completeDocumentWithToken ext opts w = (Inl PrismaNotFoundError, w))
   \<and> (\<forall>envelope. wellKeyed w \<and> findEnvelopeByToken ext opts w = Some envelope \<longrightarrow>
         confinedTo (e_id envelope) w (snd (completeDocumentWithToken ext opts w)))"
proof (intro conjI allI impI)
  show "envelopes (snd (completeDocumentWithToken ext opts w)) = envelopes w"
    "envelopeItems (snd (completeDocumentWithToken ext opts w)) = envelopeItems w"
    using completeDocumentWithToken_envelopes[of w ext opts] by (simp_all add: sameEnvelopes_def)
next
  fix u w' assume r: "completeDocumentWithToken ext opts w = (Inr u, w')"
  have "envelopes w' = envelopes w"
    using completeDocumentWithToken_envelopes[of w ext opts] r by (simp add: sameEnvelopes_def)
  then show "\<exists>envelope. findEnvelopeByToken ext opts w = Some envelope
              \<and> envelope \<in> set (envelopes w') \<and> e_status envelope = PENDING"
    using completeDocumentWithToken_Inr[OF r] by simp
next
  assume "findEnvelopeByToken ext opts w = None"
  then show "completeDocumentWithToken ext opts w = (Inl PrismaNotFoundError, w)"
    by (rule completeDocumentWithToken_None)
next
  fix envelope assume "wellKeyed w \<and> findEnvelopeByToken ext opts w = Some envelope"
  then show "confinedTo (e_id envelope) w (snd (completeDocumentWithToken ext opts w))"
    using completeDocumentWithToken_frame by blast
qed

theorem completeDocumentWithToken_confined_to_envelope_witness:
  "wellKeyed exampleTwoEnvelopes
   \<and> findEnvelopeByToken exampleExternals (exampleCompleteOptions ''t1'') exampleTwoEnvelopes
       = Some (exampleEnvelope PENDING PARALLEL)
   \<and> fst (completeDocumentWithToken exampleExternals (exampleCompleteOptions ''t1'')
            exampleTwoEnvelopes) = Inr ()
   \<and> map r_signingStatus (recipients (snd (completeDocumentWithToken exampleExternals
          (exampleCompleteOptions ''t1'') exampleTwoEnvelopes))) = [SIGNED, SIGNED, NOT_SIGNED]
   \<and> haveAllRecipientsSigned ''env1'' (snd (completeDocumentWithToken exampleExternals
          (exampleCompleteOptions ''t1'') exampleTwoEnvelopes))
   \<and> map e_status (envelopes (snd (completeDocumentWithToken exampleExternals
          (exampleCompleteOptions ''t1'') exampleTwoEnvelopes))) = [PENDING, PENDING]
   \<and> envelopes (snd (completeDocumentWithToken exampleExternals
          (exampleCompleteOptions ''t1'') exampleTwoEnvelopes)) = envelopes exampleTwoEnvelopes
   \<and> confinedTo (e_id (exampleEnvelope PENDING PARALLEL)) exampleTwoEnvelopes
        (snd (completeDocumentWithToken exampleExternals (exampleCompleteOptions ''t1'')
                exampleTwoEnvelopes))"
proof -
  note t = completeDocumentWithToken_confined_to_envelope
      [where ext = exampleExternals and opts = "exampleCompleteOptions ''t1''"
         and w = exampleTwoEnvelopes]
  have k: "wellKeyed exampleTwoEnvelopes"
    by code_simp
  have e: "findEnvelopeByToken exampleExternals (exampleCompleteOptions ''t1'') exampleTwoEnvelopes
       = Some (exampleEnvelope PENDING PARALLEL)"
    by code_simp
  have r: "fst (completeDocumentWithToken exampleExternals (exampleCompleteOptions ''t1'')
            exampleTwoEnvelopes) = Inr ()"
    by code_simp
  have s: "map r_signingStatus (recipients (snd (completeDocumentWithToken exampleExternals
          (exampleCompleteOptions ''t1'') exampleTwoEnvelopes))) = [SIGNED, SIGNED, NOT_SIGNED]"
    by code_simp
  have h: "haveAllRecipientsSigned ''env1'' (snd (completeDocumentWithToken exampleExternals
          (exampleCompleteOptions ''t1'') exampleTwoEnvelopes))"
    by code_simp
  have p: "map e_status (envelopes (snd (completeDocumentWithToken exampleExternals
          (exampleCompleteOptions ''t1'') exampleTwoEnvelopes))) = [PENDING, PENDING]"
    by code_simp
  have v: "envelopes (snd (completeDocumentWithToken exampleExternals
          (exampleCompleteOptions ''t1'') exampleTwoEnvelopes)) = envelopes exampleTwoEnvelopes"
    using t by blast
  have c: "confinedTo (e_id (exampleEnvelope PENDING PARALLEL)) exampleTwoEnvelopes
        (snd (completeDocumentWithToken exampleExternals (exampleCompleteOptions ''t1'')
                exampleTwoEnvelopes))"
    using t k e by blast
  show ?thesis
    by (intro conjI k e r s h p v c)
qed

end
